(* ===== verification/Prelude.thy ===== *)
theory Prelude
  imports Complex_Main "HOL-Library.Sublist"
begin

text \<open>
  Shared vocabulary of the calculator development: the Python exceptions the
  program raises or catches (as values of a sum type), the result type of a
  Python call that may raise, the collection of evaluation lemmas that the
  closed examples use, and generic lemmas on lists and sums that several
  component theories need.
\<close>

section \<open>Evaluation and shared lemma collections\<close>

named_theorems model_eval
  "equations that evaluate the model on concrete inputs"

named_theorems rat_eval
  "equations that evaluate rational numerals through their normal form"

section \<open>Python exceptions\<close>

text \<open>
  A \<open>ValueError\<close> carries what its message is built from: a literal text
  (\<open>raise ValueError("...")\<close>), a failed tuple unpacking with the number of
  values found (\<open>a, b, c = xs\<close>), or the string that \<open>float()\<close> rejected.
  \<open>ZeroDivisionError\<close> and \<open>OverflowError\<close> come from the numeric tower,
  \<open>EOFError\<close> from the built-in \<open>input\<close> at end of input, \<open>StopIteration\<close>
  from \<open>next\<close> on an exhausted iterator.
\<close>

datatype value_error = Msg string | Unpack nat | NotAFloat string

datatype py_exc =
    ValueError value_error
  | ZeroDivisionError
  | OverflowError
  | EOFError
  | StopIteration

type_synonym 'a py_result = "py_exc + 'a"

text \<open>\<open>str(e)\<close> of a \<open>ValueError\<close>, as CPython renders the three kinds.\<close>

fun value_error_text :: "value_error \<Rightarrow> string" where
  "value_error_text (Msg s) = s"
| "value_error_text (Unpack n) =
     (if n < 3 then ''not enough values to unpack (expected 3, got '' @
        [char_of (48 + n)] @ '')''
      else ''too many values to unpack (expected 3)'')"
| "value_error_text (NotAFloat s) =
     ''could not convert string to float: '' @ [CHR 0x27] @ s @ [CHR 0x27]"

text \<open>Sequencing of calls that may raise: the first exception propagates.\<close>

definition py_bind :: "'a py_result \<Rightarrow> ('a \<Rightarrow> 'b py_result) \<Rightarrow> 'b py_result" where
  "py_bind r f = (case r of Inl e \<Rightarrow> Inl e | Inr x \<Rightarrow> f x)"

lemmas [rat_eval] =
  rat_divide_code Fract_of_int_quotient[symmetric] quotient_of_Fract normalize_def Let_def

lemma py_bind_simps [simp]:
  "py_bind (Inl e) f = Inl e"
  "py_bind (Inr x) f = f x"
  by (simp_all add: py_bind_def)

lemma py_bind_eq_Inr:
  "py_bind r f = Inr y \<longleftrightarrow> (\<exists>x. r = Inr x \<and> f x = Inr y)"
  by (cases r) simp_all

lemma py_bind_eq_Inl:
  "py_bind r f = Inl e \<longleftrightarrow> r = Inl e \<or> (\<exists>x. r = Inr x \<and> f x = Inl e)"
  by (cases r) simp_all

section \<open>Generic list lemmas\<close>

lemma replicate_numeral [model_eval]:
  "replicate (numeral n) x = x # replicate (pred_numeral n) x"
  by (simp add: numeral_eq_Suc)

lemma sublist_in_concat:
  "x \<in> set xs \<Longrightarrow> sublist x (concat xs)"
proof (induction xs)
  case Nil
  then show ?case by simp
next
  case (Cons y ys)
  show ?case
  proof (cases "x = y")
    case True
    then show ?thesis by simp
  next
    case False
    with Cons have "sublist x (concat ys)" by simp
    then show ?thesis
      by (rule sublist_order.order.trans) (simp only: concat.simps sublist_append_leftI)
  qed
qed

end
