(* ===== verification/Py_Double.thy ===== *)
theory Py_Double
  imports Prelude
begin

text \<open>
  IEEE-754 binary64 rounding, the rounding every \<open>float\<close> operation, \<open>float()\<close>
  and \<open>int\<close>-to-\<open>float\<close> conversion of CPython performs: a rational is rounded to
  the nearest value \<open>m * 2 ^ e\<close> with an integer \<open>m\<close> of at most 53 bits and
  \<open>e \<ge> -1074\<close> (subnormals included), ties to even. The exponent is not bounded
  above here; the caller compares the result with \<open>2 ^ 1024\<close> for overflow.
  The lemmas show that the result is the nearest double, that doubles are fixed
  points, and bound the rounding error absolutely (half a quantum) and
  relatively (\<open>2 ^ -53\<close> in the normal range).
\<close>

section \<open>Binary exponents\<close>

definition exp2 :: "int \<Rightarrow> rat" where
  "exp2 e = 2 powi e"

fun bitlen :: "nat \<Rightarrow> nat" where
  "bitlen n = (if n = 0 then 0 else Suc (bitlen (n div 2)))"

declare bitlen.simps [simp del]

text \<open>The exponent of the leading bit of a positive rational, \<open>\<lfloor>log2 a\<rfloor>\<close>.\<close>

definition flog2 :: "rat \<Rightarrow> int" where
  "flog2 a =
     (let (n, d) = quotient_of a; e = int (bitlen (nat n)) - int (bitlen (nat d))
      in if exp2 e \<le> a then e else e - 1)"

text \<open>The exponent of the last bit a double of magnitude \<open>a\<close> keeps.\<close>

definition quantum :: "rat \<Rightarrow> int" where
  "quantum a = max (flog2 a - 52) (- 1074)"

section \<open>Rounding\<close>

text \<open>Rounding to an integer, ties to even.\<close>

definition round_half_even :: "rat \<Rightarrow> int" where
  "round_half_even q =
     (let (n, d) = quotient_of q; f = n div d; r = n mod d in
      if 2 * r < d then f else if d < 2 * r then f + 1 else if even f then f else f + 1)"

definition round_abs :: "rat \<Rightarrow> rat" where
  "round_abs a = of_int (round_half_even (a / exp2 (quantum a))) * exp2 (quantum a)"

definition round_double :: "rat \<Rightarrow> rat" where
  "round_double q = (if q = 0 then 0 else if q < 0 then - round_abs (- q) else round_abs q)"

section \<open>Evaluation\<close>

lemma exp2_eval: "exp2 e = (if 0 \<le> e then 2 ^ nat e else 1 / 2 ^ nat (- e))"
  by (simp add: exp2_def power_int_def field_simps)

lemmas double_eval [model_eval] =
  exp2_eval bitlen.simps flog2_def quantum_def round_half_even_def round_abs_def round_double_def

declare gcd_non_0_int [rat_eval]

section \<open>Facts\<close>

lemma exp2_pos [simp]: "0 < exp2 e"
  by (simp add: exp2_def)

lemma exp2_add: "exp2 (a + b) = exp2 a * exp2 b"
  by (simp add: exp2_def power_int_add)

lemma exp2_diff: "exp2 (a - b) = exp2 a / exp2 b"
  by (simp add: exp2_def power_int_diff)

lemma exp2_nat: "exp2 (int n) = 2 ^ n"
  by (simp add: exp2_def)

lemma exp2_less_iff [simp]: "exp2 a < exp2 b \<longleftrightarrow> a < b"
  by (metis exp2_def not_less_iff_gr_or_eq one_less_numeral_iff power_int_strict_increasing
      semiring_norm(76))

lemma exp2_le_iff [simp]: "exp2 a \<le> exp2 b \<longleftrightarrow> a \<le> b"
  by (meson exp2_less_iff not_less)

lemma bitlen_bounds: "0 < n \<Longrightarrow> 2 ^ (bitlen n - 1) \<le> n \<and> n < 2 ^ bitlen n"
proof (induction n rule: bitlen.induct)
  case (1 n)
  show ?case
  proof (cases "n div 2 = 0")
    case True
    with "1.prems" have "n = 1" by simp
    then show ?thesis by (simp add: bitlen.simps)
  next
    case False
    then have ih: "2 ^ (bitlen (n div 2) - 1) \<le> n div 2" "n div 2 < 2 ^ bitlen (n div 2)"
      using "1.IH" "1.prems" by simp_all
    have b: "0 < bitlen (n div 2)" using False by (simp add: bitlen.simps)
    have "2 ^ bitlen (n div 2) \<le> n"
      using ih(1) b by (cases "bitlen (n div 2)") simp_all
    moreover have "n < 2 ^ Suc (bitlen (n div 2))" using ih(2) by simp
    ultimately show ?thesis using "1.prems" by (simp add: bitlen.simps [of n])
  qed
qed

lemma bitlen_bounds_rat:
  assumes "0 < n"
  shows "exp2 (int (bitlen n) - 1) \<le> of_nat n" "of_nat n < exp2 (int (bitlen n))"
proof -
  have b: "0 < bitlen n" using assms by (simp add: bitlen.simps)
  have "(2 :: rat) ^ (bitlen n - 1) \<le> of_nat n" "of_nat n < (2 :: rat) ^ bitlen n"
    using bitlen_bounds [OF assms] by (simp_all flip: of_nat_le_iff of_nat_less_iff)
  moreover have "int (bitlen n) - 1 = int (bitlen n - 1)" using b by simp
  ultimately show "exp2 (int (bitlen n) - 1) \<le> of_nat n" "of_nat n < exp2 (int (bitlen n))"
    by (simp_all only: exp2_nat)
qed

lemma flog2_bounds:
  assumes "0 < a"
  shows "exp2 (flog2 a) \<le> a" "a < exp2 (flog2 a + 1)"
proof -
  obtain n d where nd: "quotient_of a = (n, d)" by (cases "quotient_of a")
  have a: "a = of_int n / of_int d" using nd by (simp add: quotient_of_div)
  have d0: "0 < d" using nd by (rule quotient_of_denom_pos)
  then have n0: "0 < n" using assms a by (simp add: zero_less_divide_iff)
  let ?bn = "int (bitlen (nat n))" and ?bd = "int (bitlen (nat d))"
  let ?e = "?bn - ?bd"
  have nn: "exp2 (?bn - 1) \<le> of_int n" "of_int n < exp2 ?bn"
    using bitlen_bounds_rat [of "nat n"] n0 by simp_all
  have dd: "exp2 (?bd - 1) \<le> of_int d" "of_int d < exp2 ?bd"
    using bitlen_bounds_rat [of "nat d"] d0 by simp_all
  have lo: "exp2 (?e - 1) < a"
  proof -
    have "exp2 (?e - 1) * of_int d < exp2 (?e - 1) * exp2 ?bd" using dd(2) by simp
    also have "\<dots> = exp2 (?bn - 1)" by (simp flip: exp2_add)
    also have "\<dots> \<le> of_int n" by (rule nn(1))
    finally show ?thesis using a d0 by (simp add: pos_less_divide_eq)
  qed
  have hi: "a < exp2 (?e + 1)"
  proof -
    have "of_int n < exp2 ?bn" by (rule nn(2))
    also have "\<dots> = exp2 (?e + 1) * exp2 (?bd - 1)" by (simp flip: exp2_add)
    also have "\<dots> \<le> exp2 (?e + 1) * of_int d" using dd(1) by simp
    finally show ?thesis using a d0 by (simp add: divide_less_eq)
  qed
  show "exp2 (flog2 a) \<le> a" "a < exp2 (flog2 a + 1)"
    using lo hi nd by (auto simp: flog2_def Let_def)
qed

lemma flog2_unique: "exp2 e \<le> a \<Longrightarrow> a < exp2 (e + 1) \<Longrightarrow> flog2 a = e"
proof -
  assume l: "exp2 e \<le> a" and u: "a < exp2 (e + 1)"
  have a: "0 < a" using l exp2_pos [of e] by linarith
  have "exp2 (flog2 a) < exp2 (e + 1)" using flog2_bounds(1) [OF a] u by linarith
  moreover have "exp2 e < exp2 (flog2 a + 1)" using flog2_bounds(2) [OF a] l by linarith
  ultimately show "flog2 a = e" by simp
qed

lemma round_half_even_int [simp]: "round_half_even (of_int z) = z"
  by (simp add: round_half_even_def quotient_of_int)

lemma round_half_even_mult: "0 < e \<Longrightarrow> of_int (round_half_even (of_int z * e / e)) * e = of_int z * e"
  by simp

lemma round_abs_exact: "a = of_int z * exp2 (quantum a) \<Longrightarrow> round_abs a = a"
  unfolding round_abs_def by (metis exp2_pos round_half_even_mult)

lemma exp2_split: "exp2 k = exp2 (k - j) * exp2 j"
  by (simp flip: exp2_add)

lemma exp2_nonneg_int: "0 \<le> e \<Longrightarrow> exp2 e = of_int (2 ^ nat e)"
  using exp2_nat [of "nat e"] by simp

lemma exp2_53: "exp2 (k + 53) = 2 ^ 53 * exp2 k"
  using exp2_add [of k 53] exp2_nat [of 53] by simp

text \<open>A value \<open>m * 2 ^ k\<close> with \<open>0 < m \<le> 2 ^ 53\<close> is a whole number of quanta.\<close>

lemma quantum_multiple:
  assumes m: "0 < m" "m \<le> 2 ^ 53" and k: "- 1074 \<le> k"
  shows "\<exists>z. of_int m * exp2 k = of_int z * exp2 (quantum (of_int m * exp2 k))"
proof -
  let ?a = "of_int m * exp2 k" and ?E = "flog2 (of_int m * exp2 k)"
  let ?q = "quantum ?a"
  have a0: "0 < ?a" using m by simp
  show ?thesis
  proof (cases "?q \<le> k")
    case True
    have "?a = of_int m * (exp2 (k - ?q) * exp2 ?q)"
      by (rule arg_cong [where f = "\<lambda>x. of_int m * x", OF exp2_split])
    also have "\<dots> = of_int (m * 2 ^ nat (k - ?q)) * exp2 ?q"
      using True by (simp add: exp2_nonneg_int)
    finally show ?thesis by blast
  next
    case False
    then have q: "?q = ?E - 52" and Ek: "k + 53 \<le> ?E" using k by (auto simp: quantum_def)
    have "exp2 (k + 53) \<le> exp2 ?E" using Ek by simp
    also have "\<dots> \<le> ?a" using flog2_bounds(1) [OF a0] .
    finally have lo: "exp2 (k + 53) \<le> ?a" .
    have "(of_int m :: rat) \<le> 2 ^ 53" using m(2) by (simp flip: of_int_le_iff)
    then have "?a \<le> 2 ^ 53 * exp2 k" by (simp add: mult_right_mono)
    then have hi: "?a \<le> exp2 (k + 53)" by (simp only: exp2_53)
    from lo hi have eq: "?a = exp2 (k + 53)" by (rule antisym [rotated])
    then have E: "?E = k + 53" by (simp add: flog2_unique)
    have "exp2 (k + 53) = of_int (2 ^ 52) * exp2 (k + 1)"
      using exp2_add [of "k + 1" 52] exp2_nat [of 52] by (simp add: add.commute)
    then have "?a = of_int (2 ^ 52) * exp2 ?q" using eq q E by (simp add: add.commute)
    then show ?thesis by blast
  qed
qed

lemma round_double_zero [simp]: "round_double 0 = 0"
  by (simp add: round_double_def)

lemma round_double_pos: "0 < q \<Longrightarrow> round_double q = round_abs q"
  by (simp add: round_double_def)

lemma round_double_neg: "q < 0 \<Longrightarrow> round_double q = - round_abs (- q)"
  by (simp add: round_double_def)

text \<open>Every double is rounded to itself.\<close>

lemma round_double_exact:
  assumes "\<bar>m\<bar> \<le> 2 ^ 53" "- 1074 \<le> k"
  shows "round_double (of_int m * exp2 k) = of_int m * exp2 k"
proof -
  have pos: "round_abs (of_int n * exp2 k) = of_int n * exp2 k" if "0 < n" "n \<le> 2 ^ 53" for n
    using quantum_multiple [OF that assms(2)] round_abs_exact by blast
  consider "m = 0" | "m < 0" | "0 < m" by linarith
  then show ?thesis
  proof cases
    case 1
    then show ?thesis by (simp add: round_double_def)
  next
    case 2
    have "round_abs (- (of_int m * exp2 k)) = - (of_int m * exp2 k)"
      using pos [of "- m"] 2 assms(1) by simp
    moreover have "of_int m * exp2 k < 0" using 2 by (simp add: mult_neg_pos)
    ultimately show ?thesis by (simp add: round_double_neg)
  next
    case 3
    then have "0 < of_int m * exp2 k" by simp
    with 3 assms(1) pos [of m] show ?thesis by (simp add: round_double_pos)
  qed
qed

lemma round_double_int: "\<bar>i\<bar> \<le> 2 ^ 53 \<Longrightarrow> round_double (of_int i) = of_int i"
  using round_double_exact [of i 0] by (simp add: exp2_def)

lemma round_double_even_int: "\<bar>i\<bar> \<le> 2 ^ 54 \<Longrightarrow> even i \<Longrightarrow> round_double (of_int i) = of_int i"
proof -
  assume b: "\<bar>i\<bar> \<le> 2 ^ 54" and e: "even i"
  then obtain j where j: "i = 2 * j" by blast
  have "\<bar>j\<bar> \<le> 2 ^ 53" using b j by simp
  then have "round_double (of_int j * exp2 1) = of_int j * exp2 1"
    by (rule round_double_exact) simp
  then show ?thesis using j by (simp add: exp2_def mult.commute)
qed

text \<open>Nothing at or above the least subnormal \<open>2 ^ -1074\<close> rounds to zero.\<close>

lemma round_half_even_ge_1: "1 \<le> u \<Longrightarrow> 1 \<le> round_half_even u"
proof -
  assume u: "1 \<le> u"
  obtain n d where nd: "quotient_of u = (n, d)" by (cases "quotient_of u")
  have d0: "0 < d" using nd by (rule quotient_of_denom_pos)
  have "u = of_int n / of_int d" using nd by (simp add: quotient_of_div)
  with u d0 have "d \<le> n" by (simp add: le_divide_eq flip: of_int_le_iff)
  then have "0 < n div d" using d0 by (simp add: pos_imp_zdiv_pos_iff)
  then show ?thesis using nd by (auto simp: round_half_even_def Let_def)
qed

lemma quantum_le:
  assumes "exp2 (- 1074) \<le> a" shows "exp2 (quantum a) \<le> a"
proof -
  have a: "0 < a" using assms exp2_pos [of "- 1074"] by linarith
  have "exp2 (flog2 a - 52) \<le> exp2 (flog2 a)" by simp
  then have "exp2 (flog2 a - 52) \<le> a" using flog2_bounds(1) [OF a] by (rule order_trans)
  then show ?thesis using assms by (simp add: quantum_def max_def)
qed

lemma round_abs_pos:
  assumes "exp2 (- 1074) \<le> a" shows "0 < round_abs a"
proof -
  have "1 \<le> a / exp2 (quantum a)" using quantum_le [OF assms] by simp
  then have "1 \<le> round_half_even (a / exp2 (quantum a))" by (rule round_half_even_ge_1)
  then show ?thesis by (simp add: round_abs_def)
qed

lemma round_double_nonzero:
  assumes "exp2 (- 1074) \<le> \<bar>q\<bar>" shows "round_double q \<noteq> 0"
proof -
  have "0 < \<bar>q\<bar>" using assms exp2_pos [of "- 1074"] by linarith
  show ?thesis
  proof (cases "q < 0")
    case True
    with assms have "0 < round_abs (- q)" by (intro round_abs_pos) simp
    with True show ?thesis by (simp add: round_double_neg)
  next
    case False
    with \<open>0 < \<bar>q\<bar>\<close> have q: "0 < q" by simp
    with assms have "0 < round_abs q" by (intro round_abs_pos) simp
    with q show ?thesis by (simp add: round_double_pos)
  qed
qed

lemma round_double_int_nonzero: "i \<noteq> 0 \<Longrightarrow> round_double (of_int i) \<noteq> 0"
proof -
  assume "i \<noteq> 0"
  then have "1 \<le> \<bar>of_int i :: rat\<bar>" by (simp flip: of_int_abs)
  moreover have "exp2 (- 1074) \<le> 1" by (simp add: exp2_def)
  ultimately show ?thesis by (intro round_double_nonzero) linarith
qed

text \<open>Rounding keeps a normal value at or above the power of two below it.\<close>

lemma round_half_even_ge: "of_int k \<le> u \<Longrightarrow> k \<le> round_half_even u"
proof -
  assume u: "of_int k \<le> u"
  obtain n d where nd: "quotient_of u = (n, d)" by (cases "quotient_of u")
  have d0: "0 < d" using nd by (rule quotient_of_denom_pos)
  have "u = of_int n / of_int d" using nd by (simp add: quotient_of_div)
  with u d0 have "k * d \<le> n" by (simp add: le_divide_eq flip: of_int_le_iff of_int_mult)
  then have "(k * d) div d \<le> n div d" using d0 by (rule zdiv_mono1)
  then have "k \<le> n div d" using d0 by simp
  then show ?thesis using nd by (auto simp: round_half_even_def Let_def)
qed

lemma round_abs_ge_binade:
  assumes "exp2 (- 1022) \<le> a" shows "exp2 (flog2 a) \<le> round_abs a"
proof -
  have a: "0 < a" using assms exp2_pos [of "- 1022"] by linarith
  have "exp2 (- 1022) < exp2 (flog2 a + 1)" using assms flog2_bounds(2) [OF a] by linarith
  then have q: "quantum a = flog2 a - 52" by (simp add: quantum_def)
  have "exp2 (flog2 a) / exp2 (flog2 a - 52) = of_int (2 ^ 52)"
    by (simp add: exp2_diff [symmetric] exp2_nat [of 52, simplified])
  then have "of_int (2 ^ 52) \<le> a / exp2 (quantum a)"
    using flog2_bounds(1) [OF a] q by (metis divide_right_mono exp2_pos less_eq_rat_def)
  then have "2 ^ 52 \<le> round_half_even (a / exp2 (quantum a))" by (rule round_half_even_ge)
  then have "(2 ^ 52 :: rat) * exp2 (quantum a) \<le> round_abs a"
    by (simp add: round_abs_def flip: of_int_le_iff)
  moreover have "(2 ^ 52 :: rat) * exp2 (quantum a) = exp2 (flog2 a)"
    using q exp2_add [of 52 "flog2 a - 52"] exp2_nat [of 52] by simp
  ultimately show ?thesis by simp
qed

lemma round_double_overflow:
  assumes "exp2 1024 \<le> \<bar>q\<bar>" shows "exp2 1024 \<le> \<bar>round_double q\<bar>"
proof -
  have "exp2 (- 1022) \<le> exp2 1024" by simp
  then have l: "exp2 (- 1022) \<le> \<bar>q\<bar>" using assms by linarith
  have a: "0 < \<bar>q\<bar>" using assms exp2_pos [of 1024] by linarith
  have "exp2 1024 < exp2 (flog2 \<bar>q\<bar> + 1)" using assms flog2_bounds(2) [OF a] by linarith
  then have "exp2 1024 \<le> exp2 (flog2 \<bar>q\<bar>)" by simp
  also have "\<dots> \<le> round_abs \<bar>q\<bar>" using l by (rule round_abs_ge_binade)
  finally have r: "exp2 1024 \<le> round_abs \<bar>q\<bar>" .
  show ?thesis
  proof (cases "q < 0")
    case True
    with r show ?thesis by (simp add: round_double_neg)
  next
    case False
    with a r show ?thesis by (simp add: round_double_pos)
  qed
qed

section \<open>Nearest\<close>

text \<open>
  \<open>round_double\<close> is rounding to nearest: its result is a double of the form
  \<open>m * 2 ^ e\<close>, \<open>|m| \<le> 2 ^ 53\<close>, \<open>e \<ge> -1074\<close>, and no value of that form is
  closer to the argument. First the integer step, then one binade.
\<close>

lemma mod_frac:
  assumes "0 < v"
  shows "of_int (u mod v) / of_int v = (of_int u / of_int v :: rat) - of_int (u div v)"
proof -
  have "(of_int u :: rat) = of_int (u div v) * of_int v + of_int (u mod v)"
    by (metis div_mult_mod_eq of_int_add of_int_mult)
  then show ?thesis using assms by (simp add: field_simps)
qed

lemma round_half_even_floor:
  "round_half_even u =
     (let f = \<lfloor>u\<rfloor>; t = u - of_int f in
      if t < 1 / 2 then f else if 1 / 2 < t then f + 1 else if even f then f else f + 1)"
proof -
  obtain n d where nd: "quotient_of u = (n, d)" by (cases "quotient_of u")
  have d: "0 < d" using nd by (rule quotient_of_denom_pos)
  have u: "u = of_int n / of_int d" using quotient_of_div [OF nd] .
  have f: "\<lfloor>u\<rfloor> = n div d" using u by (simp add: floor_divide_of_int_eq)
  have t: "u - of_int (n div d) = of_int (n mod d) / of_int d" using mod_frac [OF d, of n] u by simp
  have lt: "2 * (n mod d) < d \<longleftrightarrow> of_int (n mod d) / of_int d < (1 / 2 :: rat)"
    and gt: "d < 2 * (n mod d) \<longleftrightarrow> (1 / 2 :: rat) < of_int (n mod d) / of_int d"
    using d by (simp_all add: field_simps) (metis of_int_less_iff of_int_mult of_int_numeral)+
  have e: "round_half_even u = (if 2 * (n mod d) < d then n div d else if d < 2 * (n mod d) then n div d + 1
      else if even (n div d) then n div d else n div d + 1)"
    by (simp add: round_half_even_def nd Let_def)
  show ?thesis unfolding Let_def f t e lt gt by (rule refl)
qed

lemma round_half_even_nearest: "\<bar>of_int (round_half_even u) - u\<bar> \<le> \<bar>of_int z - u\<bar>"
proof -
  define f where "f = \<lfloor>u\<rfloor>"
  define t where "t = u - of_int f"
  have t01: "0 \<le> t" "t < 1" unfolding t_def f_def by linarith+
  have z: "min t (1 - t) \<le> \<bar>of_int z - u\<bar>"
  proof (cases "z \<le> f")
    case True
    then have "of_int z \<le> (of_int f :: rat)" by simp
    then show ?thesis unfolding t_def by linarith
  next
    case False
    then have "of_int f + 1 \<le> (of_int z :: rat)" by (metis of_int_add of_int_le_iff of_int_1 zless_imp_add1_zle not_le)
    then show ?thesis unfolding t_def by linarith
  qed
  have r: "round_half_even u = (if t < 1 / 2 then f else if 1 / 2 < t then f + 1
      else if even f then f else f + 1)"
    by (simp add: round_half_even_floor Let_def f_def t_def)
  have "\<bar>of_int (round_half_even u) - u\<bar> = min t (1 - t)"
  proof (cases "t < 1 / 2")
    case True
    then show ?thesis using r t01 by (simp add: t_def min_def)
  next
    case False
    then show ?thesis using r t01 by (cases "1 / 2 < t") (auto simp: t_def min_def)
  qed
  with z show ?thesis by simp
qed

lemma exp2_nonzero [simp]: "exp2 e \<noteq> 0"
  using exp2_pos [of e] by linarith

lemma round_half_even_le: "u \<le> of_int k \<Longrightarrow> round_half_even u \<le> k"
proof -
  assume u: "u \<le> of_int k"
  have "\<bar>of_int (round_half_even u) - u\<bar> \<le> of_int k - u"
    using round_half_even_nearest [of u k] u by simp
  then have "(of_int (round_half_even u) :: rat) \<le> of_int k" by linarith
  then show ?thesis by simp
qed

lemma round_abs_nearest:
  assumes a: "0 < a" and m: "\<bar>m\<bar> \<le> 2 ^ 53" and e: "- 1074 \<le> e"
  shows "\<bar>round_abs a - a\<bar> \<le> \<bar>of_int m * exp2 e - a\<bar>"
proof -
  let ?k = "quantum a" let ?u = "a / exp2 (quantum a)"
  have near: "\<bar>round_abs a - a\<bar> \<le> \<bar>of_int z * exp2 ?k - a\<bar>" for z
  proof -
    have "round_abs a - a = (of_int (round_half_even ?u) - ?u) * exp2 ?k"
      by (simp add: round_abs_def left_diff_distrib)
    moreover have "of_int z * exp2 ?k - a = (of_int z - ?u) * exp2 ?k"
      by (simp add: left_diff_distrib)
    ultimately show ?thesis
      using round_half_even_nearest [of ?u z] by (simp add: abs_mult mult_right_mono)
  qed
  show ?thesis
  proof (cases "?k \<le> e")
    case True
    have "of_int m * exp2 e = of_int m * (exp2 (e - ?k) * exp2 ?k)"
      by (rule arg_cong [where f = "\<lambda>x. of_int m * x", OF exp2_split])
    also have "\<dots> = of_int (m * 2 ^ nat (e - ?k)) * exp2 ?k"
      using True by (simp add: exp2_nonneg_int)
    finally have me: "of_int m * exp2 e = of_int (m * 2 ^ nat (e - ?k)) * exp2 ?k" .
    show ?thesis unfolding me by (rule near)
  next
    case False
    then have q: "?k = flog2 a - 52" using e by (auto simp: quantum_def max_def)
    have t: "exp2 (?k + 52) \<le> a" using flog2_bounds(1) [OF a] q by simp
    have "exp2 e \<le> exp2 (?k - 1)" using False by simp
    moreover have "(of_int \<bar>m\<bar> :: rat) \<le> 2 ^ 53" using m by (simp flip: of_int_le_iff)
    ultimately have "of_int \<bar>m\<bar> * exp2 e \<le> 2 ^ 53 * exp2 (?k - 1)"
      by (intro mult_mono) (simp_all add: less_imp_le)
    also have "\<dots> = exp2 (?k + 52)" using exp2_53 [of "?k - 1"] by (simp add: add.commute)
    finally have b0: "of_int \<bar>m\<bar> * exp2 e \<le> exp2 (?k + 52)" .
    have "of_int m * exp2 e \<le> of_int \<bar>m\<bar> * exp2 e"
      by (intro mult_right_mono) (simp_all add: less_imp_le)
    with b0 have b: "of_int m * exp2 e \<le> exp2 (?k + 52)" by linarith
    have "exp2 (?k + 52) = of_int (2 ^ 52) * exp2 ?k"
      using exp2_add [of ?k 52] exp2_nat [of 52] by (simp add: mult.commute)
    then have "\<bar>round_abs a - a\<bar> \<le> a - exp2 (?k + 52)" using near [of "2 ^ 52"] t by simp
    with b show ?thesis by linarith
  qed
qed

lemma round_abs_double:
  assumes a: "0 < a"
  shows "round_abs a = of_int (round_half_even (a / exp2 (quantum a))) * exp2 (quantum a)
    \<and> 0 \<le> round_half_even (a / exp2 (quantum a)) \<and> round_half_even (a / exp2 (quantum a)) \<le> 2 ^ 53"
proof -
  let ?k = "quantum a" let ?u = "a / exp2 (quantum a)"
  have "a < exp2 (flog2 a + 1)" using flog2_bounds(2) [OF a] .
  also have "\<dots> \<le> exp2 (?k + 53)" by (simp add: quantum_def)
  also have "\<dots> = 2 ^ 53 * exp2 ?k" by (rule exp2_53)
  finally have "?u \<le> of_int (2 ^ 53)" by (simp add: divide_le_eq less_imp_le)
  then have "round_half_even ?u \<le> 2 ^ 53" by (rule round_half_even_le)
  moreover have "0 \<le> round_half_even ?u"
  proof -
    have "of_int 0 \<le> ?u" using a divide_nonneg_pos [of a "exp2 ?k"] by simp
    then show ?thesis by (rule round_half_even_ge)
  qed
  ultimately show ?thesis by (simp add: round_abs_def)
qed

lemma round_double_is_double:
  "\<exists>m e. round_double q = of_int m * exp2 e \<and> \<bar>m\<bar> \<le> 2 ^ 53 \<and> - 1074 \<le> e"
proof -
  have pos: "\<exists>m e. round_abs a = of_int m * exp2 e \<and> \<bar>m\<bar> \<le> 2 ^ 53 \<and> - 1074 \<le> e" if "0 < a" for a
    using round_abs_double [OF that] by (intro exI conjI) (auto simp: quantum_def)
  consider "q = 0" | "q < 0" | "0 < q" by linarith
  then show ?thesis
  proof cases
    case 1
    then show ?thesis by (intro exI [of _ 0]) simp
  next
    case 2
    then obtain m e where "round_abs (- q) = of_int m * exp2 e" "\<bar>m\<bar> \<le> 2 ^ 53" "- 1074 \<le> e"
      using pos [of "- q"] by auto
    with 2 show ?thesis by (intro exI [of _ "- m"] exI [of _ e]) (simp add: round_double_neg)
  next
    case 3
    then show ?thesis using pos [of q] by (simp add: round_double_pos)
  qed
qed

lemma round_double_nearest:
  assumes m: "\<bar>m\<bar> \<le> 2 ^ 53" and e: "- 1074 \<le> e"
  shows "\<bar>round_double q - q\<bar> \<le> \<bar>of_int m * exp2 e - q\<bar>"
proof -
  consider "q = 0" | "q < 0" | "0 < q" by linarith
  then show ?thesis
  proof cases
    case 1
    then show ?thesis by simp
  next
    case 2
    have "\<bar>round_abs (- q) - - q\<bar> \<le> \<bar>of_int (- m) * exp2 e - - q\<bar>"
      using 2 m e by (intro round_abs_nearest) simp_all
    with 2 show ?thesis by (simp add: round_double_neg abs_minus_commute)
  next
    case 3
    with m e show ?thesis by (simp add: round_double_pos round_abs_nearest)
  qed
qed

lemma round_double_uminus: "round_double (- q) = - round_double q"
  by (simp add: round_double_def)

lemma round_double_idem [simp]: "round_double (round_double q) = round_double q"
  using round_double_is_double [of q] round_double_exact by metis


section \<open>Neighbourhood of a double\<close>

text \<open>
  A positive double is a whole number of its quanta, quanta grow with the
  value, and two values on a common grid of step \<open>2 ^ j\<close> closer than the step
  are equal. Hence a rational closer to a double \<open>q\<close> than half the gap to the
  next double (a quarter of the gap above \<open>q\<close> when \<open>q\<close> is a power of two and
  normal, where the gap below is halved) rounds to \<open>q\<close>.
\<close>

lemma flog2_mono:
  assumes "0 < a" "a \<le> b" shows "flog2 a \<le> flog2 b"
proof -
  have "0 < b" using assms by linarith
  then have "b < exp2 (flog2 b + 1)" by (rule flog2_bounds(2))
  then have "exp2 (flog2 a) < exp2 (flog2 b + 1)" using flog2_bounds(1) [OF assms(1)] assms(2) by linarith
  then show ?thesis by simp
qed

lemma quantum_mono: "0 < a \<Longrightarrow> a \<le> b \<Longrightarrow> quantum a \<le> quantum b"
  using flog2_mono [of a b] by (simp add: quantum_def)

lemma double_grid:
  assumes "round_double r = r" "0 < r" "j \<le> quantum r"
  shows "\<exists>z. r = of_int z * exp2 j"
proof -
  have "r = of_int (round_half_even (r / exp2 (quantum r))) * exp2 (quantum r)"
    using round_abs_double [OF assms(2)] assms(1,2) by (simp add: round_double_pos)
  also have "\<dots> = of_int (round_half_even (r / exp2 (quantum r)) * 2 ^ nat (quantum r - j)) * exp2 j"
    using assms(3) exp2_split [of "quantum r" j] by (simp add: exp2_nonneg_int)
  finally show ?thesis by blast
qed

lemma grid_eq:
  assumes "r = of_int a * exp2 j" "q = of_int b * exp2 j" "\<bar>r - q\<bar> < exp2 j"
  shows "r = q"
proof -
  have "\<bar>r - q\<bar> = \<bar>(of_int a - of_int b) * exp2 j\<bar>" by (simp add: assms(1,2) left_diff_distrib)
  also have "\<dots> = \<bar>of_int (a - b)\<bar> * exp2 j" by (simp add: abs_mult less_imp_le)
  finally have "\<bar>of_int (a - b) :: rat\<bar> * exp2 j < 1 * exp2 j" using assms(3) by simp
  then have "\<bar>of_int (a - b) :: rat\<bar> < 1" by (rule mult_right_less_imp_less) (simp add: less_imp_le)
  then have "\<bar>a - b\<bar> < 1" by linarith
  then show ?thesis using assms by simp
qed

lemma doubles_close_eq:
  assumes "round_double r = r" "0 < r" "j \<le> quantum r"
    and "round_double q = q" "0 < q" "j \<le> quantum q" and "\<bar>r - q\<bar> < exp2 j"
  shows "r = q"
  using double_grid [OF assms(1-3)] double_grid [OF assms(4-6)] grid_eq assms(7) by metis

lemma round_double_between:
  assumes "round_double q = q"
  shows "\<bar>round_double d - d\<bar> \<le> \<bar>q - d\<bar>"
  using round_double_is_double [of q] round_double_nearest assms by metis

lemma double_ge_quantum:
  assumes "round_double q = q" "0 < q" shows "exp2 (quantum q) \<le> q"
proof -
  obtain z where z: "q = of_int z * exp2 (quantum q)" using double_grid [OF assms order.refl] by blast
  then have "0 < z" using assms(2) by (metis exp2_pos of_int_0_less_iff zero_less_mult_pos2)
  then have "(1 :: rat) \<le> of_int z" by simp
  then have "1 * exp2 (quantum q) \<le> of_int z * exp2 (quantum q)"
    by (rule mult_right_mono) (simp add: less_imp_le)
  then show ?thesis using z by simp
qed

lemma exp2_pred: "2 * exp2 (k - 1) = exp2 k"
  using exp2_add [of 1 "k - 1"] by (simp add: exp2_def)

lemma flog2_exp2 [simp]: "flog2 (exp2 e) = e"
  by (rule flog2_unique) simp_all

lemma quantum_ge_below:
  assumes "exp2 (flog2 q - 1) \<le> r" shows "quantum q - 1 \<le> quantum r"
proof -
  have "flog2 q - 1 \<le> flog2 r" using flog2_mono [OF exp2_pos assms] by simp
  then show ?thesis by (simp add: quantum_def)
qed


lemma round_double_near_above:
  assumes q: "round_double q = q" "0 < q" and d: "q \<le> d" "d < q + exp2 (quantum q - 1)"
  shows "round_double d = q"
proof -
  let ?r = "round_double d" and ?k = "quantum q"
  have "\<bar>?r - d\<bar> \<le> \<bar>q - d\<bar>" by (rule round_double_between [OF q(1)])
  moreover have "\<bar>q - d\<bar> = d - q" using d(1) by (simp add: abs_of_nonpos)
  ultimately have b: "?r - d \<le> d - q" "q - d \<le> ?r - d" by (simp_all add: abs_le_iff)
  have r1: "q \<le> ?r" using b(2) by simp
  have "?r < q + exp2 ?k" using b(1) d(2) exp2_pred [of ?k] by simp
  with r1 have c: "\<bar>?r - q\<bar> < exp2 ?k" by (simp add: abs_less_iff)
  have m: "?k \<le> quantum ?r" using q(2) r1 by (rule quantum_mono)
  have p: "0 < ?r" using q(2) r1 by (rule less_le_trans)
  show ?thesis by (rule doubles_close_eq [OF round_double_idem p m q(1) q(2) order.refl c])
qed

lemma round_double_near_below:
  assumes q: "round_double q = q" "0 < q" and d: "q - exp2 (quantum q - 2) < d" "d \<le> q"
  shows "round_double d = q"
proof -
  let ?r = "round_double d" and ?k = "quantum q"
  have "\<bar>?r - d\<bar> \<le> \<bar>q - d\<bar>" by (rule round_double_between [OF q(1)])
  moreover have "\<bar>q - d\<bar> = q - d" using d(2) by simp
  ultimately have b: "?r - d \<le> q - d" "d - q \<le> ?r - d" by (simp_all add: abs_le_iff)
  have r2: "?r \<le> q" using b(1) by simp
  have "2 * exp2 (?k - 2) = exp2 (?k - 1)" using exp2_pred [of "?k - 1"] by simp
  then have r1: "q - exp2 (?k - 1) < ?r" using b(2) d(1) by simp
  have kq: "exp2 ?k \<le> q" by (rule double_ge_quantum [OF q])
  have "2 * exp2 (flog2 q - 1) \<le> q" using flog2_bounds(1) [OF q(2)] exp2_pred [of "flog2 q"] by simp
  moreover have "2 * exp2 (?k - 1) \<le> q" using kq exp2_pred [of ?k] by simp
  ultimately have "exp2 (flog2 q - 1) \<le> ?r" using r1 by simp
  then have m: "?k - 1 \<le> quantum ?r" by (rule quantum_ge_below)
  have p: "0 < ?r" using r1 \<open>2 * exp2 (?k - 1) \<le> q\<close> exp2_pos [of "?k - 1"] by linarith
  have c: "\<bar>?r - q\<bar> < exp2 (?k - 1)" using r1 r2 by (simp add: abs_less_iff)
  have m': "?k - 1 \<le> ?k" by simp
  show ?thesis by (rule doubles_close_eq [OF round_double_idem p m q(1) q(2) m' c])
qed

lemma round_double_near_below_gap:
  assumes q: "round_double q = q" "0 < q" and g: "exp2 (flog2 q) < q \<or> quantum q = - 1074"
    and d: "q - exp2 (quantum q - 1) < d" "d \<le> q"
  shows "round_double d = q"
proof -
  let ?r = "round_double d" and ?k = "quantum q" and ?F = "flog2 q"
  have "\<bar>?r - d\<bar> \<le> \<bar>q - d\<bar>" by (rule round_double_between [OF q(1)])
  moreover have "\<bar>q - d\<bar> = q - d" using d(2) by simp
  ultimately have b: "?r - d \<le> q - d" "d - q \<le> ?r - d" by (simp_all add: abs_le_iff)
  have r2: "?r \<le> q" using b(1) by simp
  have r1: "q - exp2 ?k < ?r" using b(2) d(1) exp2_pred [of ?k] by simp
  have kq: "exp2 ?k \<le> q" by (rule double_ge_quantum [OF q])
  have m: "?k \<le> quantum ?r"
  proof (cases "?k = - 1074")
    case True
    then show ?thesis by (simp add: quantum_def)
  next
    case False
    with g have gt: "exp2 ?F < q" and k: "?k = ?F - 52" by (auto simp: quantum_def max_def)
    obtain z where z: "q = of_int z * exp2 ?k" using double_grid [OF q order.refl] by blast
    have F: "exp2 ?F = of_int (2 ^ 52) * exp2 ?k"
      using k exp2_add [of 52 "?F - 52"] exp2_nat [of 52] by simp
    then have "of_int (2 ^ 52) * exp2 ?k < of_int z * exp2 ?k" using gt z by simp
    then have "of_int (2 ^ 52) < (of_int z :: rat)" by (rule mult_right_less_imp_less) (simp add: less_imp_le)
    then have "of_int (2 ^ 52) + 1 \<le> (of_int z :: rat)"
      by (metis of_int_1 of_int_add of_int_le_iff of_int_less_iff zless_imp_add1_zle)
    then have "(of_int (2 ^ 52) + 1) * exp2 ?k \<le> of_int z * exp2 ?k"
      by (rule mult_right_mono) (simp add: less_imp_le)
    then have "(of_int (2 ^ 52) + 1) * exp2 ?k \<le> q" by (simp only: z [symmetric])
    then have "exp2 ?F \<le> ?r" using F r1 by (simp add: distrib_right)
    then have "?F \<le> flog2 ?r" using flog2_mono [OF exp2_pos] by fastforce
    then show ?thesis using k by (simp add: quantum_def)
  qed
  have p: "0 < ?r" using r1 kq by simp
  have c: "\<bar>?r - q\<bar> < exp2 ?k" using r1 r2 by (simp add: abs_less_iff)
  show ?thesis by (rule doubles_close_eq [OF round_double_idem p m q(1) q(2) order.refl c])
qed

text \<open>
  C8: \<open>round_double\<close> is IEEE 754 binary64 rounding to nearest: its result is a
  double, \<open>m * 2 ^ e\<close> with \<open>|m| \<le> 2 ^ 53\<close> and \<open>e \<ge> -1074\<close>, and no double is
  closer to the exact value.
\<close>

theorem round_double_correct:
  assumes "\<bar>m\<bar> \<le> 2 ^ 53" and "- 1074 \<le> e"
  shows "(\<exists>m' e'. round_double q = of_int m' * exp2 e' \<and> \<bar>m'\<bar> \<le> 2 ^ 53 \<and> - 1074 \<le> e') \<and>
         \<bar>round_double q - q\<bar> \<le> \<bar>of_int m * exp2 e - q\<bar>"
  using round_double_is_double [of q] round_double_nearest [OF assms] by blast

theorem round_double_correct_witness:
  "round_double (1 / 10) = 3602879701896397 / 36028797018963968 \<and>
   \<bar>3602879701896397 / 36028797018963968 - 1 / 10\<bar> \<le> \<bar>of_int 1 * exp2 (- 3) - (1 / 10 :: rat)\<bar>"
proof -
  have r: "round_double (1 / 10) = 3602879701896397 / 36028797018963968"
    by (simp add: model_eval rat_eval)
  have "\<bar>round_double (1 / 10) - 1 / 10\<bar> \<le> \<bar>of_int 1 * exp2 (- 3) - (1 / 10 :: rat)\<bar>"
    using round_double_correct [of 1 "- 3" "1 / 10"] by simp
  with r show ?thesis by simp
qed


section \<open>Rounding error\<close>

text \<open>
  The error of rounding is at most half a quantum, and in the normal range at
  most \<open>2 ^ -53\<close> of the magnitude (the unit roundoff of binary64).
\<close>

lemma round_half_even_half: "\<bar>of_int (round_half_even u) - u\<bar> \<le> 1 / 2"
proof -
  have a: "\<bar>of_int (round_half_even u) - u\<bar> \<le> \<bar>of_int \<lfloor>u\<rfloor> - u\<bar>" by (rule round_half_even_nearest)
  have b: "\<bar>of_int (round_half_even u) - u\<bar> \<le> \<bar>of_int (\<lfloor>u\<rfloor> + 1) - u\<bar>" by (rule round_half_even_nearest)
  have "\<bar>of_int \<lfloor>u\<rfloor> - u\<bar> + \<bar>of_int (\<lfloor>u\<rfloor> + 1) - u\<bar> = 1" by linarith
  with a b show ?thesis by linarith
qed

lemma round_abs_error: "0 < a \<Longrightarrow> \<bar>round_abs a - a\<bar> \<le> exp2 (quantum a - 1)"
proof -
  assume a: "0 < a"
  let ?u = "a / exp2 (quantum a)"
  have "round_abs a - a = (of_int (round_half_even ?u) - ?u) * exp2 (quantum a)"
    by (simp add: round_abs_def left_diff_distrib)
  then have "\<bar>round_abs a - a\<bar> = \<bar>of_int (round_half_even ?u) - ?u\<bar> * exp2 (quantum a)"
    by (simp add: abs_mult less_imp_le)
  also have "\<dots> \<le> 1 / 2 * exp2 (quantum a)"
    by (rule mult_right_mono [OF round_half_even_half]) (simp add: less_imp_le)
  also have "\<dots> = exp2 (quantum a - 1)" using exp2_pred [of "quantum a"] by simp
  finally show ?thesis .
qed

lemma round_double_error_abs: "\<bar>round_double q - q\<bar> \<le> exp2 (quantum \<bar>q\<bar> - 1)"
proof (cases "q < 0")
  case True
  then have "\<bar>round_abs (- q) - - q\<bar> \<le> exp2 (quantum (- q) - 1)" by (intro round_abs_error) simp
  with True show ?thesis by (simp add: round_double_neg abs_minus_commute)
next
  case False
  show ?thesis
  proof (cases "q = 0")
    case True
    then show ?thesis by (simp add: less_imp_le)
  next
    case nz: False
    with False have "0 < q" by simp
    with round_abs_error [OF this] show ?thesis by (simp add: round_double_pos)
  qed
qed

text \<open>
  C16: bound on the rounding error. For every rational in the normal range
  (\<open>|q| \<ge> 2 ^ -1022\<close>) the double \<open>round_double q\<close> differs from \<open>q\<close> by at most
  \<open>|q| * 2 ^ -53\<close>: every float operation of the calculator is exact up to a
  relative error of \<open>2 ^ -53\<close>.
\<close>

theorem round_double_relative_error:
  assumes "exp2 (- 1022) \<le> \<bar>q\<bar>"
  shows "\<bar>round_double q - q\<bar> \<le> \<bar>q\<bar> * exp2 (- 53)"
proof -
  have a: "0 < \<bar>q\<bar>" using assms exp2_pos [of "- 1022"] by linarith
  have "exp2 (- 1022) < exp2 (flog2 \<bar>q\<bar> + 1)" using assms flog2_bounds(2) [OF a] by linarith
  then have k: "quantum \<bar>q\<bar> = flog2 \<bar>q\<bar> - 52" by (simp add: quantum_def)
  have "exp2 (quantum \<bar>q\<bar> - 1) = exp2 (flog2 \<bar>q\<bar>) * exp2 (- 53)"
    using k exp2_add [of "flog2 \<bar>q\<bar>" "- 53"] by simp
  also have "\<dots> \<le> \<bar>q\<bar> * exp2 (- 53)"
    using flog2_bounds(1) [OF a] by (simp add: mult_right_mono less_imp_le)
  finally show ?thesis using round_double_error_abs [of q] by linarith
qed

theorem round_double_relative_error_witness:
  "\<bar>round_double (1 / 10) - 1 / 10\<bar> \<le> \<bar>1 / 10 :: rat\<bar> * exp2 (- 53)"
proof -
  have "exp2 (- 1022) \<le> \<bar>1 / 10 :: rat\<bar>" by (simp add: exp2_eval)
  then show ?thesis by (rule round_double_relative_error)
qed


section \<open>Ties to even\<close>

lemma round_half_even_tie: "round_half_even (of_int m + 1 / 2) = (if even m then m else m + 1)"
proof -
  have "\<lfloor>of_int m + 1 / 2 :: rat\<rfloor> = m" by linarith
  then show ?thesis by (simp add: round_half_even_floor Let_def)
qed

lemma exp2_52_mult: "exp2 (e + 52) = 2 ^ 52 * exp2 e"
  using exp2_add [of e 52] exp2_nat [of 52] by (simp add: mult.commute)

text \<open>
  C9: ties to even. A rational exactly halfway between two neighbouring
  doubles \<open>m * 2 ^ e\<close> and \<open>(m + 1) * 2 ^ e\<close> (with \<open>m\<close> a normal significand,
  \<open>2 ^ 52 \<le> m < 2 ^ 53\<close>, or a subnormal one at the least exponent \<open>-1074\<close>) is
  rounded to the neighbour whose significand is even, as IEEE 754's
  roundTiesToEven prescribes.
\<close>

theorem round_double_ties_even:
  assumes m: "0 \<le> m" "m < 2 ^ 53" and e: "- 1074 \<le> e" and n: "2 ^ 52 \<le> m \<or> e = - 1074"
  shows "round_double ((of_int m + 1 / 2) * exp2 e) = of_int (if even m then m else m + 1) * exp2 e"
proof -
  let ?q = "(of_int m + 1 / 2) * exp2 e :: rat"
  have mq: "(0 :: rat) < of_int m + 1 / 2" using m(1) by linarith
  then have q: "0 < ?q" by simp
  have hi: "of_int m + 1 / 2 < (2 ^ 53 :: rat)"
  proof -
    have "m + 1 \<le> 2 ^ 53" using m(2) by linarith
    then have "rat_of_int (m + 1) \<le> rat_of_int (2 ^ 53)" by (simp only: of_int_le_iff)
    then have "(of_int m :: rat) + 1 \<le> 2 ^ 53" by simp
    then show ?thesis by linarith
  qed
  have k: "quantum ?q = e"
  proof (cases "2 ^ 52 \<le> m")
    case True
    then have "rat_of_int (2 ^ 52) \<le> rat_of_int m" by (simp only: of_int_le_iff)
    then have "(2 ^ 52 :: rat) \<le> of_int m" by simp
    then have "exp2 (e + 52) \<le> ?q" unfolding exp2_52_mult by (intro mult_right_mono) (simp_all add: less_imp_le)
    moreover have "?q < exp2 (e + 52 + 1)"
      using hi exp2_53 [of e] by (simp add: add.assoc)
    ultimately have "flog2 ?q = e + 52" by (rule flog2_unique)
    then show ?thesis using e by (simp add: quantum_def)
  next
    case False
    then have e0: "e = - 1074" using n by simp
    have "m + 1 \<le> 2 ^ 52" using False by linarith
    then have "rat_of_int (m + 1) \<le> rat_of_int (2 ^ 52)" by (simp only: of_int_le_iff)
    then have "(of_int m :: rat) + 1 \<le> 2 ^ 52" by simp
    then have "?q < exp2 (e + 52)" unfolding exp2_52_mult by (intro mult_strict_right_mono) simp_all
    then have "exp2 (flog2 ?q) < exp2 (e + 52)" using flog2_bounds(1) [OF q] by linarith
    then have "flog2 ?q < e + 52" by simp
    then show ?thesis using e0 by (simp add: quantum_def)
  qed
  have "round_double ?q = of_int (round_half_even (?q / exp2 e)) * exp2 e"
    using q k by (simp add: round_double_pos round_abs_def)
  also have "?q / exp2 e = of_int m + 1 / 2" by simp
  finally show ?thesis by (simp add: round_half_even_tie)
qed

theorem round_double_ties_even_witness:
  "round_double ((of_int 0 + 1 / 2) * exp2 (- 1074)) = 0 \<and>
   round_double ((of_int (2 ^ 52 + 1) + 1 / 2) * exp2 0) = 2 ^ 52 + 2"
proof -
  have a: "round_double ((of_int 0 + 1 / 2) * exp2 (- 1074)) = of_int (if even (0::int) then 0 else 0 + 1) * exp2 (- 1074)"
    by (rule round_double_ties_even) simp_all
  have b: "round_double ((of_int (2 ^ 52 + 1) + 1 / 2) * exp2 0) =
      of_int (if even (2 ^ 52 + 1 :: int) then 2 ^ 52 + 1 else 2 ^ 52 + 1 + 1) * exp2 0"
    by (rule round_double_ties_even) simp_all
  show ?thesis using a b by (simp add: exp2_eval)
qed

end
