(* ===== verification/Py_Float.thy ===== *)
theory Py_Float
  imports Py_Double
begin

text \<open>
  Python's \<open>float\<close> (an IEEE-754 double) as the calculator uses it. A value is a
  finite rational (\<open>Fin q\<close>, with \<open>Fin 0\<close> the positive zero), the negative zero,
  one of the two infinities, or NaN. The four operations follow IEEE-754: the
  exact result of finite operands is rounded to the nearest double
  (\<open>round_double\<close>, ties to even, subnormals included); a rounded magnitude of
  \<open>2 ^ 1024\<close> or more overflows to the infinity of its sign (equivalently, the
  rounded magnitude reaches \<open>ovf_bound = 2 ^ 1024 - 2 ^ 970\<close>, since no double lies
  between the largest finite double and \<open>2 ^ 1024\<close>); an exact zero takes the
  sign IEEE prescribes for the operation, a result that underflows to zero the
  sign of the exact result; NaN and the infinities propagate as IEEE says.
\<close>

section \<open>Values\<close>

datatype pyfloat = Fin rat | NegZero | PosInf | NegInf | NaN

definition ovf_bound :: rat where
  "ovf_bound = 2 ^ 1024 - 2 ^ 970"

text \<open>The finite values a double can hold.\<close>

definition is_double :: "rat \<Rightarrow> bool" where
  "is_double q \<longleftrightarrow> round_double q = q \<and> \<bar>q\<bar> < ovf_bound"

definition mk_zero :: "bool \<Rightarrow> pyfloat" where
  "mk_zero neg = (if neg then NegZero else Fin 0)"

definition mk_inf :: "bool \<Rightarrow> pyfloat" where
  "mk_inf neg = (if neg then NegInf else PosInf)"

text \<open>
  The exact result \<open>q\<close> of an operation on finite operands, delivered as a double:
  an exact zero takes the sign IEEE-754 prescribes for the operation (\<open>zneg\<close>);
  otherwise \<open>q\<close> is rounded, a rounded magnitude at or beyond \<open>ovf_bound\<close>
  overflows to the infinity of its sign and a rounded zero keeps the sign of \<open>q\<close>.
\<close>

definition round_fin :: "bool \<Rightarrow> rat \<Rightarrow> pyfloat" where
  "round_fin zneg q =
     (if q = 0 then mk_zero zneg
      else let v = round_double q in
           if ovf_bound \<le> \<bar>v\<bar> then mk_inf (q < 0)
           else if v = 0 then mk_zero (q < 0)
           else Fin v)"

text \<open>The sign bit, the finite value, and the class predicates.\<close>

fun fsign :: "pyfloat \<Rightarrow> bool" where
  "fsign (Fin q) = (q < 0)"
| "fsign NegZero = True"
| "fsign PosInf = False"
| "fsign NegInf = True"
| "fsign NaN = False"

fun fval :: "pyfloat \<Rightarrow> rat option" where
  "fval (Fin q) = Some q"
| "fval NegZero = Some 0"
| "fval PosInf = None"
| "fval NegInf = None"
| "fval NaN = None"

fun is_nan :: "pyfloat \<Rightarrow> bool" where
  "is_nan NaN = True"
| "is_nan _ = False"

text \<open>\<open>x == 0.0\<close>: true of both zeros.\<close>

fun fzero :: "pyfloat \<Rightarrow> bool" where
  "fzero (Fin q) = (q = 0)"
| "fzero NegZero = True"
| "fzero _ = False"

definition wf_float :: "pyfloat \<Rightarrow> bool" where
  "wf_float x = (case x of Fin q \<Rightarrow> is_double q | _ \<Rightarrow> True)"

section \<open>Arithmetic\<close>

fun fneg :: "pyfloat \<Rightarrow> pyfloat" where
  "fneg (Fin q) = (if q = 0 then NegZero else Fin (- q))"
| "fneg NegZero = Fin 0"
| "fneg PosInf = NegInf"
| "fneg NegInf = PosInf"
| "fneg NaN = NaN"

definition fadd :: "pyfloat \<Rightarrow> pyfloat \<Rightarrow> pyfloat" where
  "fadd x y =
     (if is_nan x \<or> is_nan y then NaN
      else case (fval x, fval y) of
        (Some a, Some b) \<Rightarrow> round_fin (fsign x \<and> fsign y) (a + b)
      | (Some _, None) \<Rightarrow> y
      | (None, Some _) \<Rightarrow> x
      | (None, None) \<Rightarrow> if x = y then x else NaN)"

definition fsub :: "pyfloat \<Rightarrow> pyfloat \<Rightarrow> pyfloat" where
  "fsub x y = fadd x (fneg y)"

definition fmul :: "pyfloat \<Rightarrow> pyfloat \<Rightarrow> pyfloat" where
  "fmul x y =
     (if is_nan x \<or> is_nan y then NaN
      else case (fval x, fval y) of
        (Some a, Some b) \<Rightarrow> round_fin (fsign x \<noteq> fsign y) (a * b)
      | _ \<Rightarrow> if fzero x \<or> fzero y then NaN else mk_inf (fsign x \<noteq> fsign y))"

text \<open>
  IEEE division, total: Python tests the divisor against zero before it divides,
  so the zero-divisor cases are never reached from Python code.
\<close>

definition fdiv :: "pyfloat \<Rightarrow> pyfloat \<Rightarrow> pyfloat" where
  "fdiv x y =
     (if is_nan x \<or> is_nan y then NaN
      else case (fval x, fval y) of
        (Some a, Some b) \<Rightarrow>
          if b = 0 then (if a = 0 then NaN else mk_inf (fsign x \<noteq> fsign y))
          else round_fin (fsign x \<noteq> fsign y) (a / b)
      | (Some _, None) \<Rightarrow> mk_zero (fsign x \<noteq> fsign y)
      | (None, Some _) \<Rightarrow> mk_inf (fsign x \<noteq> fsign y)
      | (None, None) \<Rightarrow> NaN)"

text \<open>Python's \<open>==\<close> on floats: NaN equals nothing, the two zeros are equal.\<close>

definition feq :: "pyfloat \<Rightarrow> pyfloat \<Rightarrow> bool" where
  "feq x y =
     (\<not> is_nan x \<and> \<not> is_nan y \<and>
      (case (fval x, fval y) of (Some a, Some b) \<Rightarrow> a = b | _ \<Rightarrow> x = y))"

section \<open>Basic facts\<close>

lemma ovf_bound_pos [simp]: "0 < ovf_bound"
  by (simp add: ovf_bound_def)

lemma ovf_bound_not_le_zero [simp]: "\<not> ovf_bound \<le> 0"
  by (simp add: ovf_bound_def)

lemma ovf_bound_gt_one [simp]: "1 < ovf_bound"
  by (simp add: ovf_bound_def)

lemma fval_None_iff: "fval x = None \<longleftrightarrow> x = PosInf \<or> x = NegInf \<or> x = NaN"
  by (cases x) simp_all

lemma fval_Some_fzero: "fval x = Some a \<Longrightarrow> fzero x \<longleftrightarrow> a = 0"
  by (cases x) auto

lemma fzero_fval: "fzero x \<Longrightarrow> fval x = Some 0"
  by (cases x) auto

lemma fval_Some_not_nan: "fval x = Some a \<Longrightarrow> \<not> is_nan x"
  by (cases x) auto

lemma fval_Some_sign: "fval x = Some a \<Longrightarrow> a < 0 \<Longrightarrow> fsign x"
  by (cases x) auto

lemma fval_Some_sign_pos: "fval x = Some a \<Longrightarrow> 0 < a \<Longrightarrow> \<not> fsign x"
  by (cases x) auto

lemma fval_round_fin:
  "\<bar>round_double q\<bar> < ovf_bound \<Longrightarrow> fval (round_fin z q) = Some (round_double q)"
  by (simp add: round_fin_def mk_zero_def Let_def)

lemma round_fin_overflow:
  assumes "ovf_bound \<le> \<bar>round_double q\<bar>"
  shows "round_fin z q = mk_inf (q < 0)"
proof -
  have "q \<noteq> 0" using assms by (auto simp: round_double_def)
  with assms show ?thesis by (simp add: round_fin_def)
qed

lemma fsign_round_fin_zero: "fsign (round_fin z 0) = z"
  by (simp add: round_fin_def mk_zero_def)

lemma wf_float_simps [simp]:
  "wf_float (Fin q) = is_double q"
  "wf_float NegZero" "wf_float PosInf" "wf_float NegInf" "wf_float NaN"
  by (simp_all add: wf_float_def)

lemma round_fin_cong: "(z \<longleftrightarrow> z') \<Longrightarrow> round_fin z q = round_fin z' q"
  by simp

lemma wf_round_fin [simp]: "wf_float (round_fin z q)"
  by (simp add: round_fin_def wf_float_def mk_zero_def mk_inf_def Let_def is_double_def)

lemma wf_mk_zero [simp]: "wf_float (mk_zero z)"
  by (simp add: wf_float_def mk_zero_def is_double_def)

lemma wf_mk_inf [simp]: "wf_float (mk_inf z)"
  by (simp add: wf_float_def mk_inf_def)

lemma is_nan_mk [simp]: "\<not> is_nan (mk_zero z)" "\<not> is_nan (mk_inf z)"
  by (simp_all add: mk_zero_def mk_inf_def)

lemmas float_defs = fadd_def fsub_def fmul_def fdiv_def

section \<open>Properties of the operations\<close>

text \<open>The abstraction to the finite value commutes with negation.\<close>

text \<open>On finite values \<open>==\<close> compares the values, so \<open>-0.0 == 0.0\<close>.\<close>

lemma feq_fval: "fval x = Some a \<Longrightarrow> fval y = Some b \<Longrightarrow> feq x y \<longleftrightarrow> a = b"
  by (simp add: feq_def fval_Some_not_nan)

lemma feq_Fin [simp]: "feq (Fin a) (Fin b) \<longleftrightarrow> a = b"
  by (simp add: feq_fval)

lemma fval_fneg [simp]: "fval (fneg x) = map_option uminus (fval x)"
  by (cases x) simp_all

lemma is_nan_fneg [simp]: "is_nan (fneg x) = is_nan x"
  by (cases x) simp_all

lemma fneg_fneg [simp]: "fneg (fneg x) = x"
  by (cases x) simp_all

lemma wf_fneg: "wf_float x \<Longrightarrow> wf_float (fneg x)"
  by (cases x) (simp_all add: is_double_def round_double_uminus)

text \<open>IEEE addition and multiplication are commutative, NaN and signed zeros included.\<close>

lemma fadd_comm: "fadd x y = fadd y x"
  by (cases x; cases y) (auto simp: fadd_def add.commute intro: round_fin_cong)

lemma fmul_comm: "fmul x y = fmul y x"
  by (cases x; cases y) (auto simp: fmul_def mult.commute intro: round_fin_cong)

text \<open>On finite operands each operation is the exact rational operation, rounded.\<close>

lemma fadd_fin:
  "fval x = Some a \<Longrightarrow> fval y = Some b \<Longrightarrow> fadd x y = round_fin (fsign x \<and> fsign y) (a + b)"
  by (simp add: fadd_def fval_Some_not_nan)

lemma fmul_fin:
  "fval x = Some a \<Longrightarrow> fval y = Some b \<Longrightarrow> fmul x y = round_fin (fsign x \<noteq> fsign y) (a * b)"
  by (simp add: fmul_def fval_Some_not_nan)

lemma fdiv_fin:
  "fval x = Some a \<Longrightarrow> fval y = Some b \<Longrightarrow> b \<noteq> 0 \<Longrightarrow>
   fdiv x y = round_fin (fsign x \<noteq> fsign y) (a / b)"
  by (simp add: fdiv_def fval_Some_not_nan)

lemma fsub_fin:
  "fval x = Some a \<Longrightarrow> fval y = Some b \<Longrightarrow>
   fsub x y = round_fin (fsign x \<and> fsign (fneg y)) (a - b)"
  by (simp add: fsub_def fadd_fin)

lemma fval_fadd:
  "fval x = Some a \<Longrightarrow> fval y = Some b \<Longrightarrow> \<bar>round_double (a + b)\<bar> < ovf_bound \<Longrightarrow>
   fval (fadd x y) = Some (round_double (a + b))"
  by (simp add: fadd_fin fval_round_fin)

lemma fval_fsub:
  "fval x = Some a \<Longrightarrow> fval y = Some b \<Longrightarrow> \<bar>round_double (a - b)\<bar> < ovf_bound \<Longrightarrow>
   fval (fsub x y) = Some (round_double (a - b))"
  by (simp add: fsub_fin fval_round_fin)

lemma fval_fmul:
  "fval x = Some a \<Longrightarrow> fval y = Some b \<Longrightarrow> \<bar>round_double (a * b)\<bar> < ovf_bound \<Longrightarrow>
   fval (fmul x y) = Some (round_double (a * b))"
  by (simp add: fmul_fin fval_round_fin)

lemma fval_fdiv:
  "fval x = Some a \<Longrightarrow> fval y = Some b \<Longrightarrow> b \<noteq> 0 \<Longrightarrow>
   \<bar>round_double (a / b)\<bar> < ovf_bound \<Longrightarrow> fval (fdiv x y) = Some (round_double (a / b))"
  by (simp add: fdiv_fin fval_round_fin)

text \<open>
  Every operation delivers a double or a special value, whatever its operands:
  a finite result is rounded (and rounding is idempotent), an infinite operand
  passes through.
\<close>

lemma wf_fadd [simp]: "wf_float (fadd x y)"
  by (cases x; cases y) (simp_all add: fadd_def)

lemma wf_fsub [simp]: "wf_float (fsub x y)"
  by (simp add: fsub_def)

lemma wf_fmul [simp]: "wf_float (fmul x y)"
  by (cases x; cases y) (simp_all add: fmul_def)

lemma wf_fdiv [simp]: "wf_float (fdiv x y)"
  by (cases x; cases y) (simp_all add: fdiv_def)

text \<open>
  Integers up to \<open>2 ^ 53\<close> are doubles, so on them the operations are exact; a zero
  sum or difference of integers is the positive zero.
\<close>

lemma int_in_range: "\<bar>i\<bar> \<le> 2 ^ 53 \<Longrightarrow> \<bar>of_int i :: rat\<bar> < ovf_bound"
proof -
  assume "\<bar>i\<bar> \<le> 2 ^ 53"
  then have "\<bar>of_int i :: rat\<bar> \<le> 2 ^ 53" by (simp flip: of_int_abs of_int_le_iff)
  moreover have "(2 ^ 53 :: rat) < ovf_bound" by (simp add: ovf_bound_def)
  ultimately show ?thesis by linarith
qed

lemma round_fin_int:
  "\<bar>i\<bar> \<le> 2 ^ 53 \<Longrightarrow> round_fin z (of_int i) = (if i = 0 then mk_zero z else Fin (of_int i))"
  using int_in_range [of i] by (simp add: round_fin_def round_double_int Let_def)

lemma fadd_int:
  "\<bar>x + y\<bar> \<le> 2 ^ 53 \<Longrightarrow> fadd (Fin (of_int x)) (Fin (of_int y)) = Fin (of_int (x + y))"
  by (simp add: fadd_fin round_fin_int [of "x + y", simplified] mk_zero_def)

lemma fsub_int:
  "\<bar>x - y\<bar> \<le> 2 ^ 53 \<Longrightarrow> fsub (Fin (of_int x)) (Fin (of_int y)) = Fin (of_int (x - y))"
  by (cases "y = 0")
    (simp_all add: fsub_def fadd_fin round_fin_int [of "x - y", simplified] round_fin_int [of x, simplified]
      mk_zero_def)

lemma fmul_int:
  "\<bar>x * y\<bar> \<le> 2 ^ 53 \<Longrightarrow> x * y \<noteq> 0 \<Longrightarrow>
   fmul (Fin (of_int x)) (Fin (of_int y)) = Fin (of_int (x * y))"
  by (simp add: fmul_fin round_fin_int [of "x * y", simplified])

lemmas float_eval [model_eval] =
  fadd_def fsub_def fmul_def fdiv_def round_fin_def mk_zero_def mk_inf_def ovf_bound_def

end
