(* ===== verification/Py_Number.thy ===== *)
theory Py_Number
  imports Py_Float
begin

text \<open>
  The values of the alias \<open>Number = int | float\<close> (src/app/operations/__init__.py)
  and Python's binary operators on them. An \<open>int\<close> is unbounded; an operation
  with a \<open>float\<close> operand first converts an \<open>int\<close> operand to \<open>float\<close>, rounding
  it to the nearest double and raising \<open>OverflowError\<close> when that is beyond the
  range of a double (CPython's \<open>PyLong_AsDouble\<close>). \<open>int + int\<close>, \<open>int - int\<close> and \<open>int * int\<close> stay
  integers; true division \<open>/\<close> always yields a \<open>float\<close>, raises
  \<open>ZeroDivisionError\<close> on a zero divisor (either zero of \<open>float\<close>, or integer
  0), and raises \<open>OverflowError\<close> when an \<open>int / int\<close> quotient is beyond the
  range of a double (CPython's \<open>long_true_divide\<close>), where a float quotient
  overflows to an infinity instead.
\<close>

section \<open>Values and conversions\<close>

datatype pynum = PInt int | PFloat pyfloat

definition int_to_float :: "int \<Rightarrow> pyfloat py_result" where
  "int_to_float i =
     (let v = round_double (of_int i) in if ovf_bound \<le> \<bar>v\<bar> then Inl OverflowError else Inr (Fin v))"

fun as_float :: "pynum \<Rightarrow> pyfloat py_result" where
  "as_float (PInt i) = int_to_float i"
| "as_float (PFloat x) = Inr x"

text \<open>\<open>b == 0\<close>, the test that precedes a division.\<close>

fun num_is_zero :: "pynum \<Rightarrow> bool" where
  "num_is_zero (PInt j) = (j = 0)"
| "num_is_zero (PFloat y) = fzero y"

text \<open>A float operator applied to a mixed pair: convert the left operand, then the right.\<close>

definition float_binop ::
  "(pyfloat \<Rightarrow> pyfloat \<Rightarrow> pyfloat) \<Rightarrow> pynum \<Rightarrow> pynum \<Rightarrow> pynum py_result" where
  "float_binop f a b =
     py_bind (as_float a) (\<lambda>x. py_bind (as_float b) (\<lambda>y. Inr (PFloat (f x y))))"

section \<open>The operators\<close>

fun py_add :: "pynum \<Rightarrow> pynum \<Rightarrow> pynum py_result" where
  "py_add (PInt i) (PInt j) = Inr (PInt (i + j))"
| "py_add a b = float_binop fadd a b"

fun py_sub :: "pynum \<Rightarrow> pynum \<Rightarrow> pynum py_result" where
  "py_sub (PInt i) (PInt j) = Inr (PInt (i - j))"
| "py_sub a b = float_binop fsub a b"

fun py_mul :: "pynum \<Rightarrow> pynum \<Rightarrow> pynum py_result" where
  "py_mul (PInt i) (PInt j) = Inr (PInt (i * j))"
| "py_mul a b = float_binop fmul a b"

fun py_truediv :: "pynum \<Rightarrow> pynum \<Rightarrow> pynum py_result" where
  "py_truediv (PInt i) (PInt j) =
     (if j = 0 then Inl ZeroDivisionError
      else if ovf_bound \<le> \<bar>round_double (of_int i / of_int j)\<bar> then Inl OverflowError
      else Inr (PFloat (round_fin ((i < 0) \<noteq> (j < 0)) (of_int i / of_int j))))"
| "py_truediv a b =
     py_bind (as_float a) (\<lambda>x. py_bind (as_float b) (\<lambda>y.
       if fzero y then Inl ZeroDivisionError else Inr (PFloat (fdiv x y))))"

section \<open>Facts about the operators\<close>

lemma float_binop_floats [simp]:
  "float_binop f (PFloat x) (PFloat y) = Inr (PFloat (f x y))"
  by (simp add: float_binop_def)

lemma py_ops_floats [simp]:
  "py_add (PFloat x) (PFloat y) = Inr (PFloat (fadd x y))"
  "py_sub (PFloat x) (PFloat y) = Inr (PFloat (fsub x y))"
  "py_mul (PFloat x) (PFloat y) = Inr (PFloat (fmul x y))"
  "py_truediv (PFloat x) (PFloat y) =
     (if fzero y then Inl ZeroDivisionError else Inr (PFloat (fdiv x y)))"
  by simp_all

lemma as_float_Inl: "as_float a = Inl e \<Longrightarrow> e = OverflowError"
  by (cases a) (auto simp: int_to_float_def Let_def split: if_splits)

lemma float_binop_Inl: "float_binop f a b = Inl e \<Longrightarrow> e = OverflowError"
  by (auto simp: float_binop_def py_bind_eq_Inl dest: as_float_Inl)

lemma float_binop_Inr: "float_binop f a b = Inr r \<Longrightarrow> \<exists>x. r = PFloat x"
  by (auto simp: float_binop_def py_bind_eq_Inr)

text \<open>The only exceptions of the four operators.\<close>

lemma py_add_Inl: "py_add a b = Inl e \<Longrightarrow> e = OverflowError"
  by (cases "(a, b)" rule: py_add.cases) (auto dest: float_binop_Inl)

lemma py_sub_Inl: "py_sub a b = Inl e \<Longrightarrow> e = OverflowError"
  by (cases "(a, b)" rule: py_sub.cases) (auto dest: float_binop_Inl)

lemma py_mul_Inl: "py_mul a b = Inl e \<Longrightarrow> e = OverflowError"
  by (cases "(a, b)" rule: py_mul.cases) (auto dest: float_binop_Inl)

lemma py_truediv_Inl:
  "py_truediv a b = Inl e \<Longrightarrow> e = OverflowError \<or> e = ZeroDivisionError"
  by (cases "(a, b)" rule: py_truediv.cases)
    (auto simp: py_bind_eq_Inl split: if_splits dest: as_float_Inl)

lemma py_truediv_Inr: "py_truediv a b = Inr r \<Longrightarrow> \<exists>x. r = PFloat x"
  by (cases "(a, b)" rule: py_truediv.cases) (auto simp: py_bind_eq_Inr split: if_splits)

text \<open>A zero divisor raises \<open>ZeroDivisionError\<close> unless a conversion overflows first.\<close>

lemma py_truediv_zero:
  "num_is_zero b \<Longrightarrow> as_float a \<noteq> Inl OverflowError \<Longrightarrow>
   py_truediv a b = Inl ZeroDivisionError"
  by (cases a; cases b) (auto simp: int_to_float_def Let_def split: if_splits)

lemma py_truediv_nonzero_Inl:
  "\<not> num_is_zero b \<Longrightarrow> py_truediv a b \<noteq> Inl ZeroDivisionError"
  by (cases a; cases b)
    (auto simp: py_bind_eq_Inl int_to_float_def Let_def round_double_int_nonzero split: if_splits)

lemmas number_eval [model_eval] = int_to_float_def float_binop_def

end
