(* ===== verification/Operations.thy ===== *)
theory Operations
  imports Py_Number
begin

text \<open>
  The arithmetic module, src/app/operations/__init__.py: the four static methods
  of class \<open>MathOperations\<close>. Each takes two values of \<open>Number = int | float\<close>
  and applies the Python operator; \<open>division\<close> catches the \<open>ZeroDivisionError\<close>
  of \<open>a / b\<close> and raises \<open>ValueError("Division by zero is not allowed.")\<close> in its
  place. Every other exception of the operator (an \<open>OverflowError\<close> on an \<open>int\<close>
  beyond the range of a double) propagates unchanged.

  The lemmas give each method's behaviour on every branch: exact integer
  arithmetic, float arithmetic that refines exact rational arithmetic below the
  overflow bound (\<open>num_val\<close> is the abstraction), the division error exactly on
  a zero divisor, and the complete list of exceptions each method can raise.
\<close>

section \<open>The methods\<close>

definition addition :: "pynum \<Rightarrow> pynum \<Rightarrow> pynum py_result" where
  "addition a b = py_add a b"

definition subtraction :: "pynum \<Rightarrow> pynum \<Rightarrow> pynum py_result" where
  "subtraction a b = py_sub a b"

definition multiplication :: "pynum \<Rightarrow> pynum \<Rightarrow> pynum py_result" where
  "multiplication a b = py_mul a b"

definition division_msg :: string where
  "division_msg = ''Division by zero is not allowed.''"

definition division :: "pynum \<Rightarrow> pynum \<Rightarrow> pynum py_result" where
  "division a b =
     (case py_truediv a b of
        Inl ZeroDivisionError \<Rightarrow> Inl (ValueError (Msg division_msg))
      | r \<Rightarrow> r)"

text \<open>The abstraction of a number to the rational it denotes (none for NaN and infinities).\<close>

fun num_val :: "pynum \<Rightarrow> rat option" where
  "num_val (PInt i) = Some (of_int i)"
| "num_val (PFloat x) = fval x"

text \<open>
  The invariant of the values the module computes with: an \<open>int\<close> is any
  integer, a finite \<open>float\<close> lies strictly inside the range of a double.
\<close>

fun wf_num :: "pynum \<Rightarrow> bool" where
  "wf_num (PInt _) = True"
| "wf_num (PFloat x) = wf_float x"

section \<open>Shared lemmas\<close>

lemma float_binop_wf:
  "float_binop f a b = Inr r \<Longrightarrow> (\<And>x y. wf_float (f x y)) \<Longrightarrow> wf_num r"
  by (auto simp: float_binop_def py_bind_eq_Inr)

lemma as_float_val:
  "num_val a = Some p \<Longrightarrow> is_double p \<Longrightarrow> \<exists>x. as_float a = Inr x \<and> fval x = Some p"
  by (cases a) (auto simp: int_to_float_def is_double_def)

lemma float_binop_val:
  assumes "num_val a = Some p" "num_val b = Some q" "is_double p" "is_double q"
    and "\<And>x y. fval x = Some p \<Longrightarrow> fval y = Some q \<Longrightarrow> fval (f x y) = Some v"
  shows "\<exists>r. float_binop f a b = Inr r \<and> num_val r = Some v"
proof -
  obtain x where x: "as_float a = Inr x" "fval x = Some p"
    using as_float_val assms(1,3) by blast
  obtain y where y: "as_float b = Inr y" "fval y = Some q"
    using as_float_val assms(2,4) by blast
  show ?thesis using x y assms(5) by (simp add: float_binop_def)
qed

lemma py_ops_mixed:
  assumes "\<not> (\<exists>i j. a = PInt i \<and> b = PInt j)"
  shows "py_add a b = float_binop fadd a b \<and> py_sub a b = float_binop fsub a b \<and>
         py_mul a b = float_binop fmul a b"
  using assms by (cases a; cases b) auto

lemma addition_val:
  "num_val a = Some p \<Longrightarrow> is_double p \<Longrightarrow> num_val b = Some q \<Longrightarrow> is_double q \<Longrightarrow>
   \<not> (\<exists>i j. a = PInt i \<and> b = PInt j) \<Longrightarrow> \<bar>round_double (p + q)\<bar> < ovf_bound \<Longrightarrow>
   \<exists>r. addition a b = Inr r \<and> num_val r = Some (round_double (p + q))"
  by (auto simp: addition_def py_ops_mixed intro!: float_binop_val fval_fadd)

lemma subtraction_val:
  "num_val a = Some p \<Longrightarrow> is_double p \<Longrightarrow> num_val b = Some q \<Longrightarrow> is_double q \<Longrightarrow>
   \<not> (\<exists>i j. a = PInt i \<and> b = PInt j) \<Longrightarrow> \<bar>round_double (p - q)\<bar> < ovf_bound \<Longrightarrow>
   \<exists>r. subtraction a b = Inr r \<and> num_val r = Some (round_double (p - q))"
  by (auto simp: subtraction_def py_ops_mixed intro!: float_binop_val fval_fsub)

lemma multiplication_val:
  "num_val a = Some p \<Longrightarrow> is_double p \<Longrightarrow> num_val b = Some q \<Longrightarrow> is_double q \<Longrightarrow>
   \<not> (\<exists>i j. a = PInt i \<and> b = PInt j) \<Longrightarrow> \<bar>round_double (p * q)\<bar> < ovf_bound \<Longrightarrow>
   \<exists>r. multiplication a b = Inr r \<and> num_val r = Some (round_double (p * q))"
  by (auto simp: multiplication_def py_ops_mixed intro!: float_binop_val fval_fmul)

lemma py_truediv_val:
  assumes a: "num_val a = Some p" "is_double p"
    and b: "num_val b = Some q" "is_double q"
    and nz: "q \<noteq> 0" and r: "\<bar>round_double (p / q)\<bar> < ovf_bound"
  shows "\<exists>r. py_truediv a b = Inr r \<and> num_val r = Some (round_double (p / q))"
proof (cases "\<exists>i j. a = PInt i \<and> b = PInt j")
  case True
  with a b nz r show ?thesis by (auto simp: fval_round_fin)
next
  case False
  obtain x where x: "as_float a = Inr x" "fval x = Some p"
    using as_float_val a by blast
  obtain y where y: "as_float b = Inr y" "fval y = Some q"
    using as_float_val b by blast
  have "\<not> fzero y" using y(2) nz by (simp add: fval_Some_fzero)
  moreover have "py_truediv a b =
      py_bind (as_float a) (\<lambda>x. py_bind (as_float b) (\<lambda>y.
        if fzero y then Inl ZeroDivisionError else Inr (PFloat (fdiv x y))))"
    using False by (cases a; cases b) auto
  ultimately show ?thesis using x y nz r by (simp add: fval_fdiv)
qed

lemma division_cases:
  "division a b =
     (if py_truediv a b = Inl ZeroDivisionError then Inl (ValueError (Msg division_msg))
      else py_truediv a b)"
  by (auto simp: division_def split: sum.splits py_exc.splits)

lemma division_value_error:
  "division a b = Inl (ValueError v) \<longleftrightarrow>
   py_truediv a b = Inl ZeroDivisionError \<and> v = Msg division_msg"
  by (auto simp: division_cases dest: py_truediv_Inl)

lemma division_floats:
  "division (PFloat x) (PFloat y) =
     (if fzero y then Inl (ValueError (Msg division_msg)) else Inr (PFloat (fdiv x y)))"
  by (simp add: division_def)

section \<open>Behaviour of each method\<close>

text \<open>
  C7: refinement of IEEE arithmetic. For operands that are doubles (an \<open>int\<close>
  operand converts exactly) and not both \<open>int\<close>, each method returns a float
  whose value is the exact rational result rounded to the nearest double
  (\<open>round_double\<close>), as long as that does not overflow; \<open>division\<close> does so for
  every non-zero divisor. \<open>num_val\<close> is the abstraction function.
\<close>

theorem operations_refine_ieee:
  assumes a: "num_val a = Some p" "is_double p"
    and b: "num_val b = Some q" "is_double q"
    and mixed: "\<not> (\<exists>i j. a = PInt i \<and> b = PInt j)"
  shows "(\<bar>round_double (p + q)\<bar> < ovf_bound \<longrightarrow>
            (\<exists>r. addition a b = Inr r \<and> num_val r = Some (round_double (p + q)))) \<and>
         (\<bar>round_double (p - q)\<bar> < ovf_bound \<longrightarrow>
            (\<exists>r. subtraction a b = Inr r \<and> num_val r = Some (round_double (p - q)))) \<and>
         (\<bar>round_double (p * q)\<bar> < ovf_bound \<longrightarrow>
            (\<exists>r. multiplication a b = Inr r \<and> num_val r = Some (round_double (p * q)))) \<and>
         (q \<noteq> 0 \<and> \<bar>round_double (p / q)\<bar> < ovf_bound \<longrightarrow>
            (\<exists>r. division a b = Inr r \<and> num_val r = Some (round_double (p / q))))"
proof (intro conjI impI)
  assume "q \<noteq> 0 \<and> \<bar>round_double (p / q)\<bar> < ovf_bound"
  then obtain r where "py_truediv a b = Inr r" "num_val r = Some (round_double (p / q))"
    using py_truediv_val a b by blast
  then show "\<exists>r. division a b = Inr r \<and> num_val r = Some (round_double (p / q))"
    by (simp add: division_cases)
qed (use addition_val subtraction_val multiplication_val a b mixed in blast)+

theorem operations_refine_ieee_witness:
  "round_double (5 / 6) = 7505999378950827 / 9007199254740992 \<and>
   (\<exists>r. addition (PFloat (Fin (5 / 2))) (PInt 3) = Inr r \<and> num_val r = Some (11 / 2)) \<and>
   (\<exists>r. division (PFloat (Fin (5 / 2))) (PInt 3) = Inr r \<and>
        num_val r = Some (7505999378950827 / 9007199254740992))"
proof -
  have d: "is_double (5 / 2)" "is_double (of_int 3)"
    by (simp_all add: is_double_def model_eval rat_eval)
  have m: "\<not> (\<exists>i j. PFloat (Fin (5 / 2)) = PInt i \<and> PInt 3 = PInt j)" by simp
  have v: "round_double (5 / 2 + of_int 3) = 11 / 2" "round_double (11 / 2) = 11 / 2"
    "round_double ((5 / 2) / of_int 3) = 7505999378950827 / 9007199254740992"
    by (simp_all add: model_eval rat_eval)
  have o: "\<bar>round_double (5 / 2 + of_int 3)\<bar> < ovf_bound"
    "\<bar>round_double ((5 / 2) / of_int 3)\<bar> < ovf_bound"
    using v by (simp_all add: ovf_bound_def)
  have r: "round_double (5 / 6) = 7505999378950827 / 9007199254740992"
    by (simp add: model_eval rat_eval)
  show ?thesis
    using operations_refine_ieee [of "PFloat (Fin (5 / 2))" "5 / 2" "PInt 3" "of_int 3"] d m v o r
    by simp
qed

text \<open>
  C6: \<open>division\<close> raises its \<open>ValueError("Division by zero is not allowed.")\<close>
  exactly when the divisor is zero (the integer 0, \<open>0.0\<close> or \<open>-0.0\<close>), for any
  operands that convert to \<open>float\<close>.
\<close>

theorem division_error_iff_zero:
  assumes "as_float a \<noteq> Inl OverflowError" "as_float b \<noteq> Inl OverflowError"
  shows "division a b = Inl (ValueError (Msg division_msg)) \<longleftrightarrow> num_is_zero b"
proof
  assume "division a b = Inl (ValueError (Msg division_msg))"
  then have "py_truediv a b = Inl ZeroDivisionError"
    by (simp add: division_value_error)
  then show "num_is_zero b" using py_truediv_nonzero_Inl by blast
next
  assume "num_is_zero b"
  then show "division a b = Inl (ValueError (Msg division_msg))"
    using py_truediv_zero assms(1) by (simp add: division_def)
qed

theorem division_error_iff_zero_witness:
  "as_float (PFloat (Fin 3)) \<noteq> Inl OverflowError \<and> as_float (PFloat NegZero) \<noteq> Inl OverflowError \<and>
   division (PFloat (Fin 3)) (PFloat NegZero) = Inl (ValueError (Msg ''Division by zero is not allowed.''))"
  using division_error_iff_zero [of "PFloat (Fin 3)" "PFloat NegZero"]
  by (simp add: division_msg_def)

text \<open>
  C10: the complete list of exceptions of the module. \<open>addition\<close>,
  \<open>subtraction\<close> and \<open>multiplication\<close> can raise only \<open>OverflowError\<close> (an
  \<open>int\<close> operand beyond the range of a double next to a \<open>float\<close>); \<open>division\<close>
  raises the division \<open>ValueError\<close>, and then the divisor is zero, or
  \<open>OverflowError\<close>. No method raises \<open>ZeroDivisionError\<close>.
\<close>

theorem operations_exceptions:
  "(addition a b = Inl e \<longrightarrow> e = OverflowError) \<and>
   (subtraction a b = Inl e \<longrightarrow> e = OverflowError) \<and>
   (multiplication a b = Inl e \<longrightarrow> e = OverflowError) \<and>
   (division a b = Inl e \<longrightarrow>
      (e = ValueError (Msg division_msg) \<and> num_is_zero b) \<or> e = OverflowError)"
proof (intro conjI impI)
  assume d: "division a b = Inl e"
  show "(e = ValueError (Msg division_msg) \<and> num_is_zero b) \<or> e = OverflowError"
  proof (cases "py_truediv a b = Inl ZeroDivisionError")
    case True
    then have "num_is_zero b" using py_truediv_nonzero_Inl by blast
    with True d show ?thesis by (simp add: division_cases)
  next
    case False
    with d have "py_truediv a b = Inl e" by (simp add: division_cases)
    with False show ?thesis using py_truediv_Inl by blast
  qed
qed (simp_all add: addition_def subtraction_def multiplication_def
       py_add_Inl py_sub_Inl py_mul_Inl)

theorem operations_exceptions_witness:
  "division (PInt 8) (PInt 0) = Inl (ValueError (Msg division_msg)) \<and>
   ((ValueError (Msg division_msg) = ValueError (Msg division_msg) \<and> num_is_zero (PInt 0)) \<or>
    ValueError (Msg division_msg) = OverflowError)"
proof -
  have d: "division (PInt 8) (PInt 0) = Inl (ValueError (Msg division_msg))"
    by (simp add: division_def)
  then show ?thesis
    using operations_exceptions [of "PInt 8" "PInt 0" "ValueError (Msg division_msg)"] by blast
qed

lemma int_to_float_overflow:
  assumes "2 ^ 1024 \<le> \<bar>i\<bar>" shows "int_to_float i = Inl OverflowError"
proof -
  have "rat_of_int (2 ^ 1024) \<le> rat_of_int \<bar>i\<bar>" using assms by (simp only: of_int_le_iff)
  then have "exp2 1024 \<le> \<bar>of_int i :: rat\<bar>" by (simp add: exp2_eval)
  then have "exp2 1024 \<le> \<bar>round_double (of_int i)\<bar>" by (rule round_double_overflow)
  moreover have "ovf_bound \<le> exp2 1024" by (simp add: ovf_bound_def exp2_eval)
  ultimately show ?thesis by (simp add: int_to_float_def Let_def)
qed

text \<open>
  C20: the module's operations can fail where the specification says they never
  do. With an \<open>int\<close> operand of magnitude at least \<open>2 ^ 1024\<close> (beyond the range
  of a double) and a \<open>float\<close> operand, in either order, each of the four methods
  raises \<open>OverflowError\<close>: the conversion of the integer fails before any
  arithmetic, so \<open>division\<close> raises it even for a zero divisor. Two
  integers are not covered: their quotient is rounded exactly, so
  \<open>10 ** 400 / 10 ** 399\<close> is \<open>10.0\<close>.
\<close>

theorem int_operand_overflow:
  assumes "2 ^ 1024 \<le> \<bar>i\<bar>"
  shows "addition (PInt i) (PFloat x) = Inl OverflowError \<and> addition (PFloat x) (PInt i) = Inl OverflowError \<and>
    subtraction (PInt i) (PFloat x) = Inl OverflowError \<and> subtraction (PFloat x) (PInt i) = Inl OverflowError \<and>
    multiplication (PInt i) (PFloat x) = Inl OverflowError \<and>
    multiplication (PFloat x) (PInt i) = Inl OverflowError \<and>
    division (PInt i) (PFloat x) = Inl OverflowError \<and> division (PFloat x) (PInt i) = Inl OverflowError"
  using int_to_float_overflow [OF assms]
  by (simp add: addition_def subtraction_def multiplication_def division_def float_binop_def)

theorem int_operand_overflow_witness:
  "addition (PInt (10 ^ 400)) (PFloat (Fin 1)) = Inl OverflowError \<and>
   division (PFloat (Fin 0)) (PInt (- (10 ^ 400))) = Inl OverflowError"
proof -
  have a: "2 ^ 1024 \<le> \<bar>10 ^ 400 :: int\<bar>" by simp
  have b: "2 ^ 1024 \<le> \<bar>- (10 ^ 400) :: int\<bar>" by simp
  show ?thesis using int_operand_overflow [OF a, of "Fin 1"] int_operand_overflow [OF b, of "Fin 0"] by simp
qed

text \<open>C22: \<open>division\<close> always returns a \<open>float\<close>, also for two integers.\<close>

theorem division_returns_float:
  "division a b = Inr r \<Longrightarrow> \<exists>x. r = PFloat x"
  by (auto simp: division_cases split: if_splits dest: py_truediv_Inr)

theorem division_returns_float_witness:
  "division (PInt 4) (PInt 2) = Inr (PFloat (Fin 2)) \<and> (\<exists>x. PFloat (Fin 2) = PFloat x)"
proof -
  have d: "division (PInt 4) (PInt 2) = Inr (PFloat (Fin 2))"
    by (simp add: division_def model_eval rat_eval)
  then show ?thesis using division_returns_float [OF d] by simp
qed

text \<open>
  C18: \<open>addition\<close> and \<open>multiplication\<close> are commutative on every pair of
  numbers, \<open>int\<close>, \<open>float\<close> or mixed, infinities, NaN and the signed zeros
  included, and so are their exceptions: swapping the operands never changes
  what the method returns or raises.
\<close>

theorem operations_commute:
  "addition a b = addition b a \<and> multiplication a b = multiplication b a"
  by (cases a; cases b)
    (auto simp: addition_def multiplication_def float_binop_def py_bind_def fadd_comm fmul_comm
      int_to_float_def)

lemma round_fin_not_nan [simp]: "round_fin z q \<noteq> NaN"
  by (simp add: round_fin_def mk_zero_def mk_inf_def Let_def)

lemma mk_not_nan [simp]: "mk_zero z \<noteq> NaN" "mk_inf z \<noteq> NaN"
  by (simp_all add: mk_zero_def mk_inf_def)

text \<open>
  C19: the methods return NaN exactly on IEEE 754's invalid operations. On two
  floats, \<open>addition\<close> gives NaN iff an operand is NaN or the operands are
  opposite infinities, \<open>subtraction\<close> iff an operand is NaN or they are equal
  infinities, \<open>multiplication\<close> iff an operand is NaN or a zero meets an
  infinity, and \<open>division\<close> (for a non-zero divisor, which it does not reject)
  iff an operand is NaN or both are infinities. A finite result never becomes
  NaN, not even on overflow, and no method raises on these operations.
\<close>

theorem operations_nan:
  "(addition (PFloat x) (PFloat y) = Inr (PFloat NaN) \<longleftrightarrow>
      x = NaN \<or> y = NaN \<or> (x = PosInf \<and> y = NegInf) \<or> (x = NegInf \<and> y = PosInf)) \<and>
   (subtraction (PFloat x) (PFloat y) = Inr (PFloat NaN) \<longleftrightarrow>
      x = NaN \<or> y = NaN \<or> (x = PosInf \<and> y = PosInf) \<or> (x = NegInf \<and> y = NegInf)) \<and>
   (multiplication (PFloat x) (PFloat y) = Inr (PFloat NaN) \<longleftrightarrow>
      x = NaN \<or> y = NaN \<or> (fzero x \<and> (y = PosInf \<or> y = NegInf)) \<or>
      ((x = PosInf \<or> x = NegInf) \<and> fzero y)) \<and>
   (division (PFloat x) (PFloat y) = Inr (PFloat NaN) \<longleftrightarrow>
      \<not> fzero y \<and> (x = NaN \<or> y = NaN \<or> ((x = PosInf \<or> x = NegInf) \<and> (y = PosInf \<or> y = NegInf))))"
  by (cases x; cases y)
    (simp_all add: addition_def subtraction_def multiplication_def division_floats
      fadd_def fsub_def fmul_def fdiv_def)

theorem operations_nan_witness:
  "multiplication (PFloat (Fin 0)) (PFloat NegInf) = Inr (PFloat NaN) \<and>
   addition (PFloat PosInf) (PFloat (Fin 1)) \<noteq> Inr (PFloat NaN)"
  using operations_nan [of "Fin 0" NegInf] operations_nan [of PosInf "Fin 1"] by simp

text \<open>
  Bounds of the results. Every number the four methods return satisfies
  \<open>wf_num\<close>: a finite \<open>float\<close> result is a double (\<open>is_double\<close>: fixed by
  \<open>round_double\<close> and strictly inside the range; beyond it the result is an
  infinity), whatever the operands.
\<close>

theorem operations_bounded:
  "(addition a b = Inr r \<longrightarrow> wf_num r) \<and> (subtraction a b = Inr r \<longrightarrow> wf_num r) \<and>
   (multiplication a b = Inr r \<longrightarrow> wf_num r) \<and> (division a b = Inr r \<longrightarrow> wf_num r)"
proof (intro conjI impI)
  show "wf_num r" if "addition a b = Inr r"
    using that by (cases "(a, b)" rule: py_add.cases) (auto simp: addition_def elim: float_binop_wf)
  show "wf_num r" if "subtraction a b = Inr r"
    using that by (cases "(a, b)" rule: py_sub.cases) (auto simp: subtraction_def elim: float_binop_wf)
  show "wf_num r" if "multiplication a b = Inr r"
    using that by (cases "(a, b)" rule: py_mul.cases) (auto simp: multiplication_def elim: float_binop_wf)
  assume "division a b = Inr r"
  then have "py_truediv a b = Inr r" by (simp add: division_cases split: if_splits)
  then show "wf_num r"
    by (cases "(a, b)" rule: py_truediv.cases) (auto simp: py_bind_eq_Inr split: if_splits)
qed

theorem operations_bounded_witness:
  "multiplication (PFloat PosInf) (PFloat (Fin 2)) = Inr (PFloat PosInf) \<and> wf_num (PFloat PosInf)"
proof -
  have m: "multiplication (PFloat PosInf) (PFloat (Fin 2)) = Inr (PFloat PosInf)"
    by (simp add: multiplication_def fmul_def mk_inf_def)
  show ?thesis
    using operations_bounded [of "PFloat PosInf" "PFloat (Fin 2)" "PFloat PosInf"] m by simp
qed

lemmas operations_eval [model_eval] =
  addition_def subtraction_def multiplication_def division_def division_msg_def

end
