(* ===== verification/Py_Str.thy ===== *)
theory Py_Str
  imports Py_Float
begin

text \<open>
  The string built-ins the calculator loop calls on a line of input:
  \<open>str.strip()\<close>, \<open>str.split()\<close>, \<open>str.lower()\<close> and \<open>float(str)\<close>. A
  Python \<open>str\<close> is modelled as a \<open>char list\<close>, each character a code point
  below 256 (Latin-1); over that range the whitespace class (CPython's
  \<open>Py_UNICODE_ISSPACE\<close>, shared by \<open>strip\<close>, \<open>split\<close> and \<open>float\<close>) and the
  lower-case mapping are given in full. \<open>float()\<close> follows the grammar of the
  Python reference (\<open>floatvalue\<close>): an optional sign, then \<open>inf\<close>,
  \<open>infinity\<close> or \<open>nan\<close> in any case, or a decimal with optional fraction and
  exponent, underscores allowed between digits.
\<close>

section \<open>Character classes\<close>

definition py_isspace :: "char \<Rightarrow> bool" where
  "py_isspace c \<longleftrightarrow>
     (of_char c :: nat) \<in> {9, 10, 11, 12, 13, 28, 29, 30, 31, 32, 133, 160}"

definition py_lower_char :: "char \<Rightarrow> char" where
  "py_lower_char c =
     (let n = (of_char c :: nat) in
      if (65 \<le> n \<and> n \<le> 90) \<or> (192 \<le> n \<and> n \<le> 222 \<and> n \<noteq> 215) then char_of (n + 32)
      else c)"

section \<open>strip, split, lower\<close>

definition py_strip :: "string \<Rightarrow> string" where
  "py_strip s = rev (dropWhile py_isspace (rev (dropWhile py_isspace s)))"

definition py_lower :: "string \<Rightarrow> string" where
  "py_lower s = map py_lower_char s"

text \<open>
  \<open>str.split()\<close> without a separator (CPython's \<open>split_whitespace\<close>): skip a run of
  whitespace; at the end stop, otherwise take the maximal run of other characters
  as the next field and continue after it.
\<close>

function py_split :: "string \<Rightarrow> string list" where
  "py_split s =
     (let t = dropWhile py_isspace s in
      if t = [] then []
      else takeWhile (\<lambda>c. \<not> py_isspace c) t # py_split (dropWhile (\<lambda>c. \<not> py_isspace c) t))"
  by pat_completeness auto
termination
proof (relation "measure length")
  fix s t
  assume t: "t = dropWhile py_isspace s" and ne: "t \<noteq> []"
  then obtain c r where c: "t = c # r" "\<not> py_isspace c"
    by (metis hd_dropWhile list.exhaust_sel)
  have "length (dropWhile (\<lambda>c. \<not> py_isspace c) t) \<le> length r"
    using c by (simp add: length_dropWhile_le)
  also have "length r < length t" using c by simp
  also have "length t \<le> length s" using t by (simp add: length_dropWhile_le)
  finally show "(dropWhile (\<lambda>c. \<not> py_isspace c) t, s) \<in> measure length" by simp
qed simp

declare py_split.simps [simp del]

section \<open>float(str)\<close>

definition is_digit :: "char \<Rightarrow> bool" where
  "is_digit c \<longleftrightarrow> 48 \<le> (of_char c :: nat) \<and> (of_char c :: nat) \<le> 57"

definition digit_val :: "char \<Rightarrow> nat" where
  "digit_val c = of_char c - 48"

text \<open>
  The rest of a \<open>digitpart\<close> (\<open>digit (["_"] digit)*\<close>) after its first digit:
  the accumulated value, the number of digits read, and the unread suffix. An
  underscore is consumed only when a digit follows it.
\<close>

fun digits_rest :: "nat \<Rightarrow> nat \<Rightarrow> string \<Rightarrow> nat \<times> nat \<times> string" where
  "digits_rest v k [] = (v, k, [])"
| "digits_rest v k (c # cs) =
     (if is_digit c then digits_rest (10 * v + digit_val c) (Suc k) cs
      else if c = CHR ''_'' \<and> cs \<noteq> [] \<and> is_digit (hd cs)
      then digits_rest (10 * v + digit_val (hd cs)) (Suc k) (tl cs)
      else (v, k, c # cs))"

definition digitpart :: "string \<Rightarrow> (nat \<times> nat \<times> string) option" where
  "digitpart s =
     (case s of
        [] \<Rightarrow> None
      | c # cs \<Rightarrow> if is_digit c then Some (digits_rest (digit_val c) 1 cs) else None)"

definition parse_sign :: "string \<Rightarrow> bool \<times> string" where
  "parse_sign s =
     (case s of
        c # cs \<Rightarrow>
          if c = CHR ''-'' then (True, cs) else if c = CHR ''+'' then (False, cs) else (False, s)
      | [] \<Rightarrow> (False, []))"

text \<open>
  \<open>number ::= [digitpart] "." digitpart | digitpart ["."]\<close>: the digits as one
  natural number, the count of digits after the point, and the unread suffix.
\<close>

definition parse_number :: "string \<Rightarrow> (nat \<times> nat \<times> string) option" where
  "parse_number s =
     (let (ip, s1) = (case digitpart s of Some (v, _, r) \<Rightarrow> (Some v, r) | None \<Rightarrow> (None, s))
      in case s1 of
           c # s2 \<Rightarrow>
             if c = CHR ''.'' then
               (case digitpart s2 of
                  Some (f, k, r) \<Rightarrow> Some ((case ip of Some v \<Rightarrow> v | None \<Rightarrow> 0) * 10 ^ k + f, k, r)
                | None \<Rightarrow> (case ip of Some v \<Rightarrow> Some (v, 0, s2) | None \<Rightarrow> None))
             else (case ip of Some v \<Rightarrow> Some (v, 0, s1) | None \<Rightarrow> None)
         | [] \<Rightarrow> (case ip of Some v \<Rightarrow> Some (v, 0, []) | None \<Rightarrow> None))"

text \<open>\<open>[exponent]\<close> and the end of the string: \<open>("e" | "E") [sign] digitpart\<close>.\<close>

definition parse_exponent :: "string \<Rightarrow> int option" where
  "parse_exponent s =
     (case s of
        [] \<Rightarrow> Some 0
      | c # cs \<Rightarrow>
          if c = CHR ''e'' \<or> c = CHR ''E'' then
            (let (neg, t) = parse_sign cs in
             case digitpart t of
               Some (x, _, []) \<Rightarrow> Some (if neg then - int x else int x)
             | _ \<Rightarrow> None)
          else None)"

definition pow10 :: "int \<Rightarrow> rat" where
  "pow10 e = (if 0 \<le> e then 10 ^ nat e else 1 / 10 ^ nat (- e))"

text \<open>
  The value of a decimal literal with sign \<open>neg\<close>, digits \<open>m\<close> and decimal
  exponent \<open>e\<close>, delivered as a double: \<open>-0\<close> is the negative zero, magnitudes
  beyond the range of a double are infinities (\<open>float("1e400") == inf\<close>).
\<close>

definition dec_float :: "bool \<Rightarrow> nat \<Rightarrow> int \<Rightarrow> pyfloat" where
  "dec_float neg m e =
     round_fin neg ((if neg then -1 else 1) * of_nat m * pow10 e)"

definition parse_float_body :: "string \<Rightarrow> pyfloat option" where
  "parse_float_body s =
     (let (neg, t) = parse_sign s; lt = map py_lower_char t in
      if lt = ''inf'' \<or> lt = ''infinity'' then Some (mk_inf neg)
      else if lt = ''nan'' then Some NaN
      else
        (case parse_number t of
           None \<Rightarrow> None
         | Some (m, k, r) \<Rightarrow>
             (case parse_exponent r of
                None \<Rightarrow> None
              | Some x \<Rightarrow> Some (dec_float neg m (x - int k)))))"

text \<open>\<open>float(s)\<close>: surrounding whitespace is ignored; anything else raises \<open>ValueError\<close>.\<close>

definition py_float :: "string \<Rightarrow> pyfloat py_result" where
  "py_float s =
     (case parse_float_body (py_strip s) of
        Some x \<Rightarrow> Inr x
      | None \<Rightarrow> Inl (ValueError (NotAFloat s)))"

text \<open>
  Fields joined by single spaces, Python's \<open>' '.join(fields)\<close>: not called by the
  program, it states what \<open>split()\<close> inverts.
\<close>

fun unwords :: "string list \<Rightarrow> string" where
  "unwords [] = []"
| "unwords [f] = f"
| "unwords (f # fs) = f @ CHR '' '' # unwords fs"

section \<open>Facts about strip and split\<close>

lemma py_split_empty [simp]: "py_split [] = []"
  by (simp add: py_split.simps)

lemma py_split_space:
  "py_isspace c \<Longrightarrow> py_split (c # s) = py_split s"
  by (simp add: py_split.simps [of "c # s"] py_split.simps [of s])

lemma py_split_nonspace:
  assumes "\<not> py_isspace c"
  shows "py_split (c # s) =
           takeWhile (\<lambda>c. \<not> py_isspace c) (c # s) #
           py_split (dropWhile (\<lambda>c. \<not> py_isspace c) s)"
  using assms by (simp add: py_split.simps [of "c # s"])

lemma py_split_dropWhile: "py_split (dropWhile py_isspace s) = py_split s"
  by (induction s) (simp_all add: py_split_space)

text \<open>Every field is non-empty and holds no whitespace.\<close>

lemma py_split_fields:
  "t \<in> set (py_split s) \<Longrightarrow> t \<noteq> [] \<and> (\<forall>c \<in> set t. \<not> py_isspace c)"
proof (induction s rule: py_split.induct)
  case (1 s)
  let ?t = "dropWhile py_isspace s"
  show ?case
  proof (cases "?t = []")
    case True
    with "1.prems" show ?thesis by (simp add: py_split.simps [of s])
  next
    case False
    then obtain c r where c: "?t = c # r" "\<not> py_isspace c"
      by (metis hd_dropWhile list.exhaust_sel)
    from "1.prems" False have
      "t = takeWhile (\<lambda>c. \<not> py_isspace c) ?t \<or>
       t \<in> set (py_split (dropWhile (\<lambda>c. \<not> py_isspace c) ?t))"
      by (simp add: py_split.simps [of s] Let_def del: dropWhile_eq_Nil_conv)
    then show ?thesis
    proof
      assume "t = takeWhile (\<lambda>c. \<not> py_isspace c) ?t"
      with c show ?thesis by (auto dest: set_takeWhileD)
    next
      assume "t \<in> set (py_split (dropWhile (\<lambda>c. \<not> py_isspace c) ?t))"
      with "1.IH" [OF refl False] show ?thesis by blast
    qed
  qed
qed

text \<open>Splitting drops exactly the whitespace: the fields concatenate to the other characters.\<close>

lemma concat_py_split: "concat (py_split s) = filter (\<lambda>c. \<not> py_isspace c) s"
proof (induction s rule: py_split.induct)
  case (1 s)
  let ?t = "dropWhile py_isspace s"
  have f: "filter (\<lambda>c. \<not> py_isspace c) s = filter (\<lambda>c. \<not> py_isspace c) ?t"
    by (induction s) simp_all
  show ?case
  proof (cases "?t = []")
    case True
    with f show ?thesis by (simp add: py_split.simps [of s])
  next
    case False
    have split_t: "?t = takeWhile (\<lambda>c. \<not> py_isspace c) ?t @ dropWhile (\<lambda>c. \<not> py_isspace c) ?t"
      by simp
    have "filter (\<lambda>c. \<not> py_isspace c) (takeWhile (\<lambda>c. \<not> py_isspace c) ?t) =
          takeWhile (\<lambda>c. \<not> py_isspace c) ?t"
      by (auto simp: filter_id_conv dest: set_takeWhileD)
    then have "filter (\<lambda>c. \<not> py_isspace c) ?t =
        takeWhile (\<lambda>c. \<not> py_isspace c) ?t @
        filter (\<lambda>c. \<not> py_isspace c) (dropWhile (\<lambda>c. \<not> py_isspace c) ?t)"
      by (subst split_t) (simp only: filter_append)
    with False "1.IH" [OF refl False] f show ?thesis
      by (simp add: py_split.simps [of s] Let_def del: dropWhile_eq_Nil_conv)
  qed
qed

text \<open>\<open>strip()\<close> leaves a string whose ends are not whitespace unchanged.\<close>

lemma py_strip_ends:
  assumes "s \<noteq> []" "\<not> py_isspace (hd s)" "\<not> py_isspace (last s)"
  shows "py_strip s = s"
proof -
  have "dropWhile py_isspace s = s" using assms(1,2) by (cases s) simp_all
  moreover have "dropWhile py_isspace (rev s) = rev s"
    using assms(1,3) by (cases "rev s") (simp_all add: hd_rev [symmetric])
  ultimately show ?thesis by (simp add: py_strip_def)
qed

text \<open>Splitting a run of fields separated by single spaces gives the fields back.\<close>

lemma py_split_field:
  assumes f: "f \<noteq> []" "\<forall>c \<in> set f. \<not> py_isspace c"
    and r: "takeWhile (\<lambda>c. \<not> py_isspace c) rest = []"
  shows "py_split (f @ rest) = f # py_split rest"
proof -
  obtain c cs where c: "f = c # cs" using f(1) by (cases f) auto
  have "takeWhile (\<lambda>c. \<not> py_isspace c) (f @ rest) = f"
    using f(2) r by (simp add: takeWhile_append2)
  moreover have "dropWhile (\<lambda>c. \<not> py_isspace c) (cs @ rest) = rest"
  proof -
    have "dropWhile (\<lambda>c. \<not> py_isspace c) (cs @ rest) = dropWhile (\<lambda>c. \<not> py_isspace c) rest"
      using f(2) c by (simp add: dropWhile_append2)
    also have "\<dots> = rest" using r by (cases rest) (simp_all split: if_splits)
    finally show ?thesis .
  qed
  ultimately show ?thesis using f(2) c by (simp add: py_split_nonspace)
qed

lemma py_split_join:
  "\<forall>f \<in> set fs. f \<noteq> [] \<and> (\<forall>c \<in> set f. \<not> py_isspace c) \<Longrightarrow> py_split (unwords fs) = fs"
proof (induction fs)
  case Nil
  then show ?case by simp
next
  case (Cons f fs)
  have sp: "py_isspace CHR '' ''" by (simp add: py_isspace_def)
  show ?case
  proof (cases fs)
    case Nil
    with Cons.prems show ?thesis using py_split_field [of f "[]"] by simp
  next
    case (Cons g gs)
    then have "unwords (f # fs) = f @ CHR '' '' # unwords fs" by simp
    moreover have "py_split (CHR '' '' # unwords fs) = fs"
      using Cons.IH Cons.prems sp by (simp add: py_split_space)
    ultimately show ?thesis using Cons.prems py_split_field [of f "CHR '' '' # unwords fs"] sp
      by simp
  qed
qed

text \<open>
  C17: round trip of \<open>str.split()\<close>: splitting fields joined by single spaces
  gives back exactly those fields if and only if every field is non-empty and
  contains no whitespace (the fields \<open>split()\<close> itself produces).
\<close>

theorem py_split_join_iff:
  "py_split (unwords fs) = fs \<longleftrightarrow>
   (\<forall>f \<in> set fs. f \<noteq> [] \<and> (\<forall>c \<in> set f. \<not> py_isspace c))"
  using py_split_join py_split_fields by metis

theorem py_split_join_iff_witness:
  "py_split (unwords [''3'', ''+'', ''3'']) = [''3'', ''+'', ''3'']"
  using py_split_join_iff [of "[''3'', ''+'', ''3'']"] by (simp add: py_isspace_def)

lemmas str_eval [model_eval] =
  py_isspace_def py_lower_char_def py_strip_def py_lower_def py_split.simps
  is_digit_def digit_val_def digitpart_def parse_sign_def parse_number_def
  parse_exponent_def pow10_def dec_float_def parse_float_body_def py_float_def

end
