(* ===== verification/Py_Repr.thy ===== *)
theory Py_Repr
  imports Py_Number
begin

text \<open>
  The text of a number in \<open>print(f"Result: {result}")\<close>: \<open>str\<close> of an \<open>int\<close>
  (its decimal digits) and \<open>repr\<close> of a \<open>float\<close> (CPython's
  \<open>float_repr_style = 'short'\<close>, David Gay's shortest round trip): the fewest
  significant digits, at most 17, whose decimal value rounds back to the same
  double, the nearer one when two such strings of that length exist (ties to
  even); written in fixed notation when the decimal exponent \<open>e\<close> of the first
  digit satisfies \<open>-4 \<le> e < 16\<close> (always with a fractional part, \<open>6.0\<close>) and in
  exponent notation otherwise (\<open>1e+16\<close>, \<open>1.5e-05\<close>). Zeros, infinities and
  NaN print as \<open>0.0\<close>, \<open>-0.0\<close>, \<open>inf\<close>, \<open>-inf\<close> and \<open>nan\<close>.
\<close>

section \<open>Decimal digits\<close>

definition digit_char :: "nat \<Rightarrow> char" where
  "digit_char d = ''0123456789'' ! d"

fun nat_digits :: "nat \<Rightarrow> string" where
  "nat_digits n =
     (if n < 10 then [digit_char n] else nat_digits (n div 10) @ [digit_char (n mod 10)])"

definition int_str :: "int \<Rightarrow> string" where
  "int_str i = (if i < 0 then CHR ''-'' # nat_digits (nat (- i)) else nat_digits (nat i))"

fun ilog10 :: "nat \<Rightarrow> nat" where
  "ilog10 n = (if n < 10 then 0 else Suc (ilog10 (n div 10)))"

definition pow10r :: "int \<Rightarrow> rat" where
  "pow10r e = (if 0 \<le> e then 10 ^ nat e else 1 / 10 ^ nat (- e))"

text \<open>\<open>round(a / b)\<close>, ties to even, for \<open>b > 0\<close>.\<close>

definition div_round_even :: "nat \<Rightarrow> nat \<Rightarrow> nat" where
  "div_round_even a b =
     (let q = a div b; r = a mod b in
      if 2 * r < b then q else if b < 2 * r then Suc q else if even q then q else Suc q)"

text \<open>The decimal exponent of \<open>a / d\<close>, \<open>a, d > 0\<close>: the \<open>e\<close> with \<open>10^e \<le> a/d < 10^(e+1)\<close>.\<close>

definition dec_exp :: "nat \<Rightarrow> nat \<Rightarrow> int" where
  "dec_exp a d =
     (let e = int (ilog10 a) - int (ilog10 d) in
      if pow10r e * of_nat d \<le> of_nat a then e else e - 1)"

text \<open>The 17 significant digits of \<open>a / d\<close> with decimal exponent \<open>e\<close>, rounded.\<close>

definition sig17 :: "nat \<Rightarrow> nat \<Rightarrow> int \<Rightarrow> nat" where
  "sig17 a d e =
     (if e \<le> 16 then div_round_even (a * 10 ^ nat (16 - e)) d
      else div_round_even a (d * 10 ^ nat (e - 16)))"

definition strip_zeros :: "string \<Rightarrow> string" where
  "strip_zeros s = rev (dropWhile (\<lambda>c. c = CHR ''0'') (rev s))"

text \<open>
  The \<open>k\<close>-digit decimal chosen for a positive double \<open>q\<close> with decimal exponent
  \<open>e\<close>: its digits as a number \<open>c\<close> (the value is \<open>c * 10 ^ s\<close>), when one of the
  two \<open>k\<close>-digit neighbours of \<open>q\<close> rounds back to \<open>q\<close>.
\<close>

definition repr_candidate :: "rat \<Rightarrow> int \<Rightarrow> nat \<Rightarrow> nat option" where
  "repr_candidate q e k =
     (let s = e - int k + 1; (n, d) = quotient_of (q / pow10r s);
          lo = nat (n div d); hi = Suc lo; r = n mod d
      in if r = 0 then Some lo
         else
           (let ok_lo = (round_double (of_nat lo * pow10r s) = q);
                ok_hi = (round_double (of_nat hi * pow10r s) = q)
            in if ok_lo \<and> ok_hi then
                 Some (if 2 * r < d then lo else if d < 2 * r then hi else if even lo then lo else hi)
               else if ok_lo then Some lo
               else if ok_hi then Some hi
               else None))"

text \<open>The shortest length from \<open>k\<close> on, up to 17 digits.\<close>

function repr_shortest :: "rat \<Rightarrow> int \<Rightarrow> nat \<Rightarrow> (nat \<times> int) option" where
  "repr_shortest q e k =
     (if 17 < k then None
      else if repr_candidate q e k = None then repr_shortest q e (Suc k)
      else Some (the (repr_candidate q e k), e - int k + 1))"
  by pat_completeness auto
termination by (relation "measure (\<lambda>(q, e, k). 18 - k)") auto

declare repr_shortest.simps [simp del]

text \<open>The decimal exponent of a positive rational, and its 17 significant digits.\<close>

definition rat_dec_exp :: "rat \<Rightarrow> int" where
  "rat_dec_exp q = (case quotient_of q of (n, d) \<Rightarrow> dec_exp (nat n) (nat d))"

definition rat_sig17 :: "rat \<Rightarrow> int \<Rightarrow> nat" where
  "rat_sig17 q e = (case quotient_of q of (n, d) \<Rightarrow> sig17 (nat n) (nat d) e)"

text \<open>Digits (without trailing zeros) and decimal exponent of a positive double.\<close>

definition repr_digits_at :: "rat \<Rightarrow> int \<Rightarrow> string \<times> int" where
  "repr_digits_at q e =
     (case repr_shortest q e 1 of
        Some (c, s) \<Rightarrow> (strip_zeros (nat_digits c), s + int (length (nat_digits c)) - 1)
      | None \<Rightarrow>
          (if rat_sig17 q e = 10 ^ 17 then (''1'', e + 1)
           else (strip_zeros (nat_digits (rat_sig17 q e)), e)))"

definition repr_digits :: "rat \<Rightarrow> string \<times> int" where
  "repr_digits q = repr_digits_at q (rat_dec_exp q)"

definition exp_str :: "int \<Rightarrow> string" where
  "exp_str e =
     (if e < 0 then CHR ''-'' else CHR ''+'') #
     (let x = nat_digits (nat \<bar>e\<bar>) in if length x < 2 then CHR ''0'' # x else x)"

definition format_repr :: "string \<Rightarrow> int \<Rightarrow> string" where
  "format_repr ds e =
     (if -4 \<le> e \<and> e < 16 then
        (if 0 \<le> e then
           (let ip = take (nat e + 1) (ds @ replicate (nat e + 1) CHR ''0'');
                fp = drop (nat e + 1) ds
            in ip @ ''.'' @ (if fp = [] then ''0'' else fp))
         else ''0.'' @ replicate (nat (- e) - 1) CHR ''0'' @ ds)
      else
        hd ds # (if tl ds = [] then [] else CHR ''.'' # tl ds) @ ''e'' @ exp_str e)"

section \<open>repr and str\<close>

fun float_repr :: "pyfloat \<Rightarrow> string" where
  "float_repr (Fin q) =
     (if q = 0 then ''0.0''
      else (if q < 0 then ''-'' else []) @ (case repr_digits \<bar>q\<bar> of (ds, e) \<Rightarrow> format_repr ds e))"
| "float_repr NegZero = ''-0.0''"
| "float_repr PosInf = ''inf''"
| "float_repr NegInf = ''-inf''"
| "float_repr NaN = ''nan''"

fun py_str :: "pynum \<Rightarrow> string" where
  "py_str (PInt i) = int_str i"
| "py_str (PFloat x) = float_repr x"

declare nat_digits.simps [simp del] ilog10.simps [simp del]

lemmas repr_eval [model_eval] =
  digit_char_def int_str_def pow10r_def div_round_even_def dec_exp_def sig17_def strip_zeros_def
  repr_candidate_def repr_shortest.simps rat_dec_exp_def rat_sig17_def repr_digits_at_def
  repr_digits_def exp_str_def format_repr_def
  nat_digits.simps ilog10.simps

section \<open>Integral values\<close>

text \<open>
  The digits of a natural number: their count and the bounds of \<open>ilog10\<close>, and the
  digits of \<open>n * 10 ^ k\<close>. The shortest search returns a length \<open>k\<close> no later
  than the first at which a candidate exists, and for an integer \<open>n \<le> 2 ^ 53\<close>
  every accepted candidate is exact: a \<open>k\<close>-digit neighbour that is not \<open>n\<close> is
  an even integer below \<open>2 ^ 54\<close>, a double of its own. So an integral value up
  to \<open>2 ^ 53\<close> prints as its digits followed by \<open>.0\<close> (\<open>6.0\<close>, \<open>-1200.0\<close>).
\<close>

lemma digit_char_of_char: "d < 10 \<Longrightarrow> (of_char (digit_char d) :: nat) = 48 + d"
proof -
  assume "d < 10"
  then have "d \<in> {0, 1, 2, 3, 4, 5, 6, 7, 8, 9}" by auto
  then show ?thesis by (auto simp: digit_char_def)
qed

lemma digit_char_0 [simp]: "digit_char 0 = CHR ''0''"
  by (simp add: digit_char_def)

lemma ilog10_bounds: "0 < n \<Longrightarrow> 10 ^ ilog10 n \<le> n \<and> n < 10 ^ Suc (ilog10 n)"
proof (induction n rule: ilog10.induct)
  case (1 n)
  show ?case
  proof (cases "n < 10")
    case True
    with "1.prems" show ?thesis by (simp add: ilog10.simps)
  next
    case False
    then have "0 < n div 10" by simp
    with "1.IH" False have ih: "10 ^ ilog10 (n div 10) \<le> n div 10"
      "n div 10 < 10 ^ Suc (ilog10 (n div 10))" by simp_all
    from ih(1) have "10 ^ Suc (ilog10 (n div 10)) \<le> n"
      by (simp add: less_eq_div_iff_mult_less_eq mult.commute)
    moreover from ih(2) have "n < 10 ^ Suc (Suc (ilog10 (n div 10)))"
      by (simp add: div_less_iff_less_mult mult.commute)
    ultimately show ?thesis using False by (simp add: ilog10.simps [of n])
  qed
qed

lemma length_nat_digits: "length (nat_digits n) = Suc (ilog10 n)"
proof (induction n rule: nat_digits.induct)
  case (1 n)
  then show ?case
    by (cases "n < 10") (simp_all add: nat_digits.simps [of n] ilog10.simps [of n])
qed

lemma nat_digits_times_10:
  assumes "0 < n" shows "nat_digits (n * 10) = nat_digits n @ [CHR ''0'']"
proof -
  have "\<not> n * 10 < 10" using assms by simp
  then show ?thesis by (simp add: nat_digits.simps [of "n * 10"])
qed

lemma nat_digits_times_pow10:
  "0 < n \<Longrightarrow> nat_digits (n * 10 ^ k) = nat_digits n @ replicate k (CHR ''0'')"
proof (induction k)
  case 0
  then show ?case by simp
next
  case (Suc k)
  have e: "n * 10 ^ Suc k = n * 10 ^ k * 10" by simp
  have "nat_digits (n * 10 ^ k * 10) = nat_digits (n * 10 ^ k) @ [CHR ''0'']"
    by (rule nat_digits_times_10) (use Suc.prems in simp)
  then have "nat_digits (n * 10 ^ Suc k) = nat_digits (n * 10 ^ k) @ [CHR ''0'']"
    by (simp only: e)
  with Suc show ?case by (simp add: replicate_append_same)
qed

lemma dropWhile_replicate_append: "P x \<Longrightarrow> dropWhile P (replicate k x @ ys) = dropWhile P ys"
  by (induction k) simp_all

lemma strip_zeros_append_zeros: "strip_zeros (s @ replicate k (CHR ''0'')) = strip_zeros s"
  by (simp add: strip_zeros_def dropWhile_replicate_append)

lemma strip_zeros_prefix:
  "\<exists>z. s = strip_zeros s @ replicate z (CHR ''0'')"
proof -
  let ?P = "\<lambda>c. c = CHR ''0''"
  let ?t = "takeWhile ?P (rev s)"
  have "rev s = ?t @ dropWhile ?P (rev s)" by (rule takeWhile_dropWhile_id [symmetric])
  then have "s = rev (dropWhile ?P (rev s)) @ rev ?t"
    by (metis rev_append rev_rev_ident)
  moreover have "rev ?t = replicate (length ?t) (CHR ''0'')"
  proof -
    have "\<forall>c \<in> set (rev ?t). c = CHR ''0''" by (auto dest: set_takeWhileD)
    then show ?thesis using replicate_length_same [of "rev ?t"] by simp
  qed
  ultimately have "s = strip_zeros s @ replicate (length ?t) (CHR ''0'')"
    unfolding strip_zeros_def by simp
  then show ?thesis by blast
qed

lemma ilog10_one [simp]: "ilog10 1 = 0" "ilog10 (Suc 0) = 0"
  by (simp_all add: ilog10.simps)

lemma ilog10_lt_16: "0 < n \<Longrightarrow> n < 10 ^ 16 \<Longrightarrow> ilog10 n < 16"
proof -
  assume "0 < n" "n < 10 ^ 16"
  then have h: "(10 :: nat) ^ ilog10 n < 10 ^ 16" using ilog10_bounds [of n] by linarith
  show "ilog10 n < 16" using power_less_imp_less_exp [of "10 :: nat" "ilog10 n" 16, OF _ h] by simp
qed


lemma repr_shortest_Some:
  "repr_shortest q e k = Some (c, s) \<Longrightarrow>
   \<exists>j. k \<le> j \<and> j \<le> 17 \<and> repr_candidate q e j = Some c \<and> s = e - int j + 1"
proof (induction q e k rule: repr_shortest.induct)
  case (1 q e k)
  show ?case
  proof (cases "17 < k")
    case True
    with "1.prems" show ?thesis by (simp add: repr_shortest.simps)
  next
    case k: False
    show ?thesis
    proof (cases "repr_candidate q e k = None")
      case True
      with k "1.prems" have "repr_shortest q e (Suc k) = Some (c, s)"
        by (simp add: repr_shortest.simps [of q e k])
      from "1.IH" [OF k True this] obtain j where
        "Suc k \<le> j \<and> j \<le> 17 \<and> repr_candidate q e j = Some c \<and> s = e - int j + 1" by blast
      then show ?thesis by (intro exI [of _ j]) simp
    next
      case False
      with k "1.prems" show ?thesis by (intro exI [of _ k]) (auto simp: repr_shortest.simps [of q e k])
    qed
  qed
qed

lemma repr_shortest_found:
  "k \<le> j \<Longrightarrow> j \<le> 17 \<Longrightarrow> repr_candidate q e j \<noteq> None \<Longrightarrow> repr_shortest q e k \<noteq> None"
proof (induction q e k rule: repr_shortest.induct)
  case (1 q e k)
  show ?case
  proof (cases "repr_candidate q e k = None")
    case True
    with "1.prems" have "k \<noteq> j" "\<not> 17 < k" by auto
    with "1.IH" [OF _ True] "1.prems" True show ?thesis
      by (simp add: repr_shortest.simps [of q e k])
  next
    case False
    with "1.prems" show ?thesis by (auto simp: repr_shortest.simps [of q e k])
  qed
qed

lemma pow10r_pos [simp]: "0 < pow10r s" "0 \<le> pow10r s" "pow10r s \<noteq> 0"
  by (simp_all add: pow10r_def)

lemma pow10r_nonneg: "0 \<le> s \<Longrightarrow> pow10r s = of_nat (10 ^ nat s)"
  by (simp add: pow10r_def)

lemma round_double_even_nat:
  assumes "0 < s" "c * 10 ^ s \<le> (2 :: nat) ^ 54"
  shows "round_double (of_nat (c * 10 ^ s)) = of_nat (c * 10 ^ s)"
proof -
  have "even (int (c * 10 ^ s))" using assms(1) by simp
  moreover have "\<bar>int (c * 10 ^ s)\<bar> \<le> 2 ^ 54"
    using assms(2) by (metis abs_of_nat of_nat_le_iff of_nat_numeral of_nat_power)
  ultimately show ?thesis using round_double_even_int [of "int (c * 10 ^ s)"] by simp
qed

lemma repr_candidate_exact:
  assumes n: "0 < n" "n \<le> 2 ^ 53" and k: "1 \<le> k"
    and c: "repr_candidate (of_nat n) (int (ilog10 n)) k = Some c"
  shows "of_nat c * pow10r (int (ilog10 n) - int k + 1) = (of_nat n :: rat)"
proof -
  define s where "s = int (ilog10 n) - int k + 1"
  define q :: rat where "q = of_nat n"
  obtain N D where nd: "quotient_of (q / pow10r s) = (N, D)"
    by (cases "quotient_of (q / pow10r s)")
  have D: "0 < D" using quotient_of_denom_pos [OF nd] .
  have qd: "q / pow10r s = of_int N / of_int D" using quotient_of_div [OF nd] .
  have "0 < q / pow10r s" using n(1) by (simp add: q_def)
  then have N: "0 < N" using qd D by (simp add: zero_less_divide_iff)
  have fl0: "\<lfloor>q / pow10r s\<rfloor> = N div D" using qd by (simp add: floor_divide_of_int_eq)
  have fl: "of_int (N div D) \<le> q / pow10r s"
    using of_int_floor_le [of "q / pow10r s"] by (simp add: fl0)
  have cand: "repr_candidate q (int (ilog10 n)) k =
    (let lo = nat (N div D); hi = Suc lo; r = N mod D
     in if r = 0 then Some lo
        else
          (let ok_lo = (round_double (of_nat lo * pow10r s) = q);
               ok_hi = (round_double (of_nat hi * pow10r s) = q)
           in if ok_lo \<and> ok_hi then
                Some (if 2 * r < D then lo else if D < 2 * r then hi else if even lo then lo else hi)
              else if ok_lo then Some lo else if ok_hi then Some hi else None))"
    by (simp add: repr_candidate_def Let_def s_def nd [unfolded s_def])
  show ?thesis
  proof (cases "N mod D = 0")
    case True
    then have "of_int (N div D) = q / pow10r s" using qd by (simp add: of_int_div dvd_eq_mod_eq_0)
    moreover have "c = nat (N div D)" using c True cand by (simp add: q_def Let_def)
    moreover have "0 \<le> N div D" using N D by (simp add: pos_imp_zdiv_nonneg_iff)
    ultimately show ?thesis by (simp add: q_def s_def)
  next
    case False
    have s0: "0 < s"
    proof (rule ccontr)
      assume "\<not> 0 < s"
      then have "q / pow10r s = of_int (int n * 10 ^ nat (- s))"
        by (simp add: pow10r_def q_def)
      then have "(N, D) = (int n * 10 ^ nat (- s), 1)" using nd quotient_of_rat_of_int by metis
      with False show False by simp
    qed
    have ok: "round_double (of_nat c * pow10r s) = q" "c \<le> Suc (nat (N div D))"
      using c False cand by (auto simp: q_def Let_def split: if_splits)
    have "10 ^ nat s \<le> (10 :: nat) ^ ilog10 n" using k by (simp add: s_def)
    also have "\<dots> \<le> n" using ilog10_bounds n(1) by blast
    finally have p: "pow10r s \<le> q" using s0 by (simp add: pow10r_nonneg q_def flip: of_nat_power)
    have "of_nat c * pow10r s \<le> (q / pow10r s + 1) * pow10r s"
    proof (rule mult_right_mono)
      have "of_nat c \<le> (of_nat (Suc (nat (N div D))) :: rat)" using ok(2) by (simp only: of_nat_le_iff)
      also have "\<dots> = of_int (N div D) + 1" using N D by (simp add: pos_imp_zdiv_nonneg_iff)
      finally have "of_nat c \<le> of_int (N div D) + (1 :: rat)" .
      then show "of_nat c \<le> q / pow10r s + 1" using fl(1) by linarith
    qed simp
    also have "\<dots> \<le> 2 * q" using p by (simp add: field_simps)
    also have "\<dots> \<le> 2 ^ 54"
    proof -
      have "q \<le> 2 ^ 53" using n(2) unfolding q_def by (metis of_nat_le_iff of_nat_numeral of_nat_power)
      then show ?thesis by simp
    qed
    finally have "of_nat (c * 10 ^ nat s) \<le> (2 ^ 54 :: rat)" using s0 by (simp add: pow10r_nonneg)
    then have "c * 10 ^ nat s \<le> 2 ^ 54" by (metis of_nat_le_iff of_nat_numeral of_nat_power)
    with ok(1) s0 show ?thesis
      using round_double_even_nat [of "nat s" c] by (simp add: pow10r_nonneg q_def s_def)
  qed
qed
lemma repr_candidate_at_exp: "repr_candidate (of_nat n) (int e) (Suc e) = Some n"
  by (simp add: repr_candidate_def pow10r_def)

lemma digits_of_exact:
  assumes eq: "of_nat c * pow10r s = (of_nat n :: rat)" and n: "0 < n"
  shows "strip_zeros (nat_digits c) = strip_zeros (nat_digits n)
    \<and> s + int (length (nat_digits c)) - 1 = int (ilog10 n)"
proof (cases "0 \<le> s")
  case True
  then have "of_nat n = (of_nat (c * 10 ^ nat s) :: rat)" using eq by (simp add: pow10r_nonneg)
  then have "n = c * 10 ^ nat s" by (rule of_nat_eq_iff [THEN iffD1])
  moreover from this n have "0 < c" by simp
  ultimately have d: "nat_digits n = nat_digits c @ replicate (nat s) (CHR ''0'')"
    by (simp add: nat_digits_times_pow10)
  have "length (nat_digits n) = length (nat_digits c) + nat s" by (simp add: d)
  then have "ilog10 n = ilog10 c + nat s" by (simp add: length_nat_digits)
  then show ?thesis using True by (simp add: d strip_zeros_append_zeros length_nat_digits)
next
  case False
  then have "of_nat c = (of_nat n * 10 ^ nat (- s) :: rat)"
    using eq by (simp add: pow10r_def field_simps)
  then have "c = n * 10 ^ nat (- s)" by (metis of_nat_eq_iff of_nat_mult of_nat_numeral of_nat_power)
  then have d: "nat_digits c = nat_digits n @ replicate (nat (- s)) (CHR ''0'')"
    using n by (simp add: nat_digits_times_pow10)
  have "length (nat_digits c) = length (nat_digits n) + nat (- s)" by (simp add: d)
  then have "ilog10 c = ilog10 n + nat (- s)" by (simp add: length_nat_digits)
  then show ?thesis using False by (simp add: d strip_zeros_append_zeros length_nat_digits)
qed

lemma rat_dec_exp_nat: "0 < n \<Longrightarrow> rat_dec_exp (of_nat n) = int (ilog10 n)"
proof -
  assume n: "0 < n"
  have "pow10r (int (ilog10 n)) * of_nat 1 \<le> (of_nat n :: rat)"
    using ilog10_bounds [OF n] by (simp add: pow10r_def flip: of_nat_power of_nat_le_iff)
  then show ?thesis by (simp add: rat_dec_exp_def dec_exp_def Let_def)
qed

lemma repr_digits_nat:
  assumes n: "0 < n" "n \<le> 2 ^ 53"
  shows "repr_digits (of_nat n) = (strip_zeros (nat_digits n), int (ilog10 n))"
proof -
  let ?q = "of_nat n :: rat" and ?e = "ilog10 n"
  have "n < 10 ^ 16" using n(2) by simp
  then have e16: "?e < 16" using ilog10_lt_16 n(1) by simp
  have "repr_shortest ?q (int ?e) 1 \<noteq> None"
    by (rule repr_shortest_found [of 1 "Suc ?e"]) (use e16 repr_candidate_at_exp in simp_all)
  then obtain c s where cs: "repr_shortest ?q (int ?e) 1 = Some (c, s)" by auto
  then obtain j where j: "1 \<le> j" "repr_candidate ?q (int ?e) j = Some c" "s = int ?e - int j + 1"
    using repr_shortest_Some by blast
  have "of_nat c * pow10r s = ?q" using repr_candidate_exact [OF n j(1,2)] j(3) by simp
  from digits_of_exact [OF this n(1)] show ?thesis
    using cs by (simp add: repr_digits_def repr_digits_at_def rat_dec_exp_nat [OF n(1)])
qed

lemma format_repr_nat:
  assumes n: "0 < n" "n < 10 ^ 16"
  shows "format_repr (strip_zeros (nat_digits n)) (int (ilog10 n)) = nat_digits n @ ''.0''"
proof -
  let ?s = "nat_digits n" and ?e = "ilog10 n"
  let ?ds = "strip_zeros ?s"
  obtain z where z: "?s = ?ds @ replicate z (CHR ''0'')" using strip_zeros_prefix by blast
  have len: "length ?s = Suc ?e" by (rule length_nat_digits)
  have e16: "?e < 16" using ilog10_lt_16 n by simp
  have lds: "length ?ds + z = Suc ?e" using len z by (metis length_append length_replicate)
  have zz: "Suc ?e - length ?ds = z" using lds by simp
  have "take (Suc ?e) (?ds @ replicate (Suc ?e) (CHR ''0'')) = ?ds @ replicate z (CHR ''0'')"
    using lds by (simp add: take_replicate min_def zz del: replicate_Suc)
  then have ip: "take (Suc ?e) (?ds @ replicate (Suc ?e) (CHR ''0'')) = ?s" using z by simp
  have fp: "drop (Suc ?e) ?ds = []" using lds by simp
  show ?thesis using e16 ip fp by (simp add: format_repr_def)
qed

lemma float_repr_of_int:
  assumes "\<bar>i\<bar> \<le> 2 ^ 53"
  shows "float_repr (Fin (of_int i)) = int_str i @ ''.0''"
proof (cases "i = 0")
  case True
  then show ?thesis by (simp add: int_str_def nat_digits.simps)
next
  case False
  let ?n = "nat \<bar>i\<bar>"
  have n: "0 < ?n" "?n \<le> 2 ^ 53" using False assms by (simp_all add: nat_le_iff)
  have n16: "?n < 10 ^ 16" using n(2) by simp
  have a: "\<bar>of_int i :: rat\<bar> = of_nat ?n" by simp
  have "repr_digits \<bar>of_int i :: rat\<bar> = (strip_zeros (nat_digits ?n), int (ilog10 ?n))"
    unfolding a by (rule repr_digits_nat [OF n])
  then show ?thesis using False by (simp add: format_repr_nat [OF n(1) n16] int_str_def)
qed


section \<open>The search succeeds on every double\<close>

text \<open>
  For a positive double \<open>q\<close> with decimal exponent \<open>e\<close> the step \<open>10 ^ (e - 16)\<close>
  of the 17-digit neighbours is below the quantum of \<open>q\<close> (below half of it when
  \<open>q\<close> is a power of two), because \<open>2 ^ 53 < 10 ^ 16\<close>; so the nearer neighbour,
  at most half a step away, rounds back to \<open>q\<close>, and \<open>repr_shortest\<close> finds a
  candidate of at most 17 digits. Every candidate it returns rounds back to
  \<open>q\<close>.
\<close>

lemma pow10r_powi: "pow10r e = 10 powi e"
  by (simp add: pow10r_def power_int_def power_one_over)

lemma pow10r_add: "pow10r (a + b) = pow10r a * pow10r b"
  by (simp add: pow10r_powi power_int_add)

lemma pow10r_less_iff [simp]: "pow10r a < pow10r b \<longleftrightarrow> a < b"
proof
  assume "a < b"
  then show "pow10r a < pow10r b"
    using power_int_strict_increasing [of a b "10 :: rat"] by (simp add: pow10r_powi)
next
  assume h: "pow10r a < pow10r b"
  show "a < b"
  proof (rule ccontr)
    assume "\<not> a < b"
    then have "pow10r b \<le> pow10r a"
      using power_int_increasing [of b a "10 :: rat"] by (simp add: pow10r_powi)
    with h show False by simp
  qed
qed

lemma ilog10_bounds_rat:
  assumes "0 < n" shows "pow10r (int (ilog10 n)) \<le> of_nat n" "of_nat n < pow10r (int (ilog10 n) + 1)"
proof -
  have b: "10 ^ ilog10 n \<le> n" "n < 10 ^ Suc (ilog10 n)" using ilog10_bounds [OF assms] by simp_all
  show "pow10r (int (ilog10 n)) \<le> of_nat n"
    using b(1) by (simp add: pow10r_def flip: of_nat_power of_nat_le_iff)
  have e: "pow10r (int (ilog10 n) + 1) = of_nat (10 ^ Suc (ilog10 n))"
    using pow10r_nonneg [of "int (ilog10 n) + 1"] by (simp add: nat_add_distrib)
  show "of_nat n < pow10r (int (ilog10 n) + 1)" using b(2) by (simp only: e of_nat_less_iff)
qed

lemma rat_dec_exp_bounds:
  assumes "0 < q"
  shows "pow10r (rat_dec_exp q) \<le> q" "q < pow10r (rat_dec_exp q + 1)"
proof -
  obtain n d where nd: "quotient_of q = (n, d)" by (cases "quotient_of q")
  have d: "0 < d" using nd by (rule quotient_of_denom_pos)
  have qd: "q = of_int n / of_int d" using quotient_of_div [OF nd] .
  then have n: "0 < n" using assms d by (simp add: zero_less_divide_iff)
  let ?a = "nat n" and ?b = "nat d"
  have ab: "q = of_nat ?a / of_nat ?b" using qd n d by simp
  have a0: "0 < ?a" and b0: "0 < ?b" using n d by simp_all
  let ?e = "int (ilog10 ?a) - int (ilog10 ?b)"
  have A: "pow10r (int (ilog10 ?a)) \<le> of_nat ?a" "of_nat ?a < pow10r (int (ilog10 ?a) + 1)"
    using ilog10_bounds_rat [OF a0] by simp_all
  have B: "pow10r (int (ilog10 ?b)) \<le> of_nat ?b" "of_nat ?b < pow10r (int (ilog10 ?b) + 1)"
    using ilog10_bounds_rat [OF b0] by simp_all
  have pb: "0 < (of_nat ?b :: rat)" using b0 by simp
  have lo: "pow10r (?e - 1) < q"
  proof -
    have "pow10r (?e - 1) * of_nat ?b < pow10r (?e - 1) * pow10r (int (ilog10 ?b) + 1)"
      using B(2) by simp
    also have "\<dots> = pow10r (int (ilog10 ?a))" by (simp flip: pow10r_add)
    also have "\<dots> \<le> of_nat ?a" by (rule A(1))
    finally show ?thesis using pb by (simp add: ab pos_less_divide_eq)
  qed
  have hi: "q < pow10r (?e + 1)"
  proof -
    have "of_nat ?a < pow10r (int (ilog10 ?a) + 1)" by (rule A(2))
    also have "\<dots> = pow10r (?e + 1) * pow10r (int (ilog10 ?b))" by (simp flip: pow10r_add)
    also have "\<dots> \<le> pow10r (?e + 1) * of_nat ?b" using B(1) by simp
    finally show ?thesis using pb by (simp add: ab divide_less_eq)
  qed
  have c: "pow10r ?e * of_nat ?b \<le> of_nat ?a \<longleftrightarrow> pow10r ?e \<le> q"
    using pb by (simp add: ab pos_le_divide_eq)
  have de: "rat_dec_exp q = (if pow10r ?e \<le> q then ?e else ?e - 1)"
    by (simp add: rat_dec_exp_def nd dec_exp_def Let_def c)
  have "pow10r (rat_dec_exp q) \<le> q \<and> q < pow10r (rat_dec_exp q + 1)"
  proof (cases "pow10r ?e \<le> q")
    case True
    then show ?thesis using hi by (simp add: de)
  next
    case False
    then show ?thesis using lo by (simp add: de less_imp_le)
  qed
  then show "pow10r (rat_dec_exp q) \<le> q" "q < pow10r (rat_dec_exp q + 1)" by simp_all
qed

lemma repr_candidate_eq:
  assumes "quotient_of (q / pow10r (e - int k + 1)) = (N, D)"
  shows "repr_candidate q e k =
    (let lo = nat (N div D); hi = Suc lo;
         ok = (\<lambda>c. round_double (of_nat c * pow10r (e - int k + 1)) = q)
     in if N mod D = 0 then Some lo
        else if ok lo \<and> ok hi then
          Some (if 2 * (N mod D) < D then lo else if D < 2 * (N mod D) then hi else if even lo then lo else hi)
        else if ok lo then Some lo else if ok hi then Some hi else None)"
  using assms by (simp add: repr_candidate_def Let_def)

lemma quotient_floor:
  assumes nd: "quotient_of x = (N, D)" and x: "0 < x"
  shows "0 \<le> N div D" "of_int (N div D) \<le> x" "x < of_int (N div D) + 1"
    and "N mod D = 0 \<Longrightarrow> of_int (N div D) = x"
proof -
  have D: "0 < D" using nd by (rule quotient_of_denom_pos)
  have xd: "x = of_int N / of_int D" using quotient_of_div [OF nd] .
  have fl: "\<lfloor>x\<rfloor> = N div D" using xd by (simp add: floor_divide_of_int_eq)
  show "0 \<le> N div D" using fl x by linarith
  show "of_int (N div D) \<le> x" "x < of_int (N div D) + 1" using fl by linarith+
  assume "N mod D = 0"
  then show "of_int (N div D) = x" using xd by (simp add: of_int_div dvd_eq_mod_eq_0)
qed

lemma repr_candidate_rounds:
  assumes q: "round_double q = q" "0 < q" and c: "repr_candidate q e k = Some c"
  shows "round_double (of_nat c * pow10r (e - int k + 1)) = q"
proof -
  let ?p = "pow10r (e - int k + 1)"
  obtain N D where nd: "quotient_of (q / ?p) = (N, D)" by (cases "quotient_of (q / ?p)")
  have x: "0 < q / ?p" using q(2) by simp
  show ?thesis
  proof (cases "N mod D = 0")
    case True
    then have "c = nat (N div D)" using c by (simp add: repr_candidate_eq [OF nd] Let_def)
    then have "of_nat c = q / ?p" using quotient_floor [OF nd x] True by simp
    then show ?thesis using q(1) by simp
  next
    case False
    then show ?thesis using c by (auto simp: repr_candidate_eq [OF nd] Let_def split: if_splits)
  qed
qed

lemma step_17_bound:
  assumes q: "0 < q"
  shows "pow10r (rat_dec_exp q - 16) < exp2 (quantum q)"
    and "q = exp2 (flog2 q) \<Longrightarrow> pow10r (rat_dec_exp q - 16) < exp2 (flog2 q - 53)"
proof -
  let ?e = "rat_dec_exp q" and ?F = "flog2 q"
  have p: "pow10r (?e - 16) = pow10r ?e / 10 ^ 16"
    using pow10r_add [of ?e "- 16"] by (simp add: pow10r_def)
  have t: "(2 :: rat) ^ 53 < 10 ^ 16" by simp
  have "pow10r ?e < exp2 (?F + 1)" using rat_dec_exp_bounds [OF q] flog2_bounds(2) [OF q] by linarith
  also have "\<dots> = 2 ^ 53 * exp2 (?F - 52)" using exp2_53 [of "?F - 52"] by (simp add: add.commute)
  also have "\<dots> < 10 ^ 16 * exp2 (?F - 52)" using t by simp
  finally have "pow10r (?e - 16) < exp2 (?F - 52)" by (simp add: p divide_less_eq mult.commute)
  also have "\<dots> \<le> exp2 (quantum q)" by (simp add: quantum_def)
  finally show "pow10r (?e - 16) < exp2 (quantum q)" .
  assume pw: "q = exp2 ?F"
  have "pow10r ?e \<le> exp2 ?F" using rat_dec_exp_bounds(1) [OF q] pw by simp
  also have "\<dots> = 2 ^ 53 * exp2 (?F - 53)" using exp2_53 [of "?F - 53"] by simp
  also have "\<dots> < 10 ^ 16 * exp2 (?F - 53)" using t by simp
  finally show "pow10r (?e - 16) < exp2 (?F - 53)" by (simp add: p divide_less_eq mult.commute)
qed

lemma half_step:
  fixes t p :: rat
  assumes "0 < p" "0 \<le> t" "2 * t \<le> 1"
  shows "0 \<le> t * p" "t * p \<le> p / 2"
proof -
  show "0 \<le> t * p" using assms by simp
  have "t * p \<le> (1 / 2) * p" using assms by (intro mult_right_mono) simp_all
  then show "t * p \<le> p / 2" by simp
qed

lemma repr_candidate_None:
  assumes nd: "quotient_of (q / pow10r (e - int k + 1)) = (N, D)"
    and ok: "round_double (of_nat (nat (N div D)) * pow10r (e - int k + 1)) = q \<or>
             round_double (of_nat (Suc (nat (N div D))) * pow10r (e - int k + 1)) = q"
  shows "repr_candidate q e k \<noteq> None"
  using ok unfolding repr_candidate_eq [OF nd] Let_def by (elim disjE) simp_all

lemma repr_candidate_17:
  assumes q: "round_double q = q" "0 < q"
  shows "repr_candidate q (rat_dec_exp q) 17 \<noteq> None"
proof -
  let ?p = "pow10r (rat_dec_exp q - int 17 + 1)" and ?k = "quantum q" and ?F = "flog2 q"
  obtain N D where nd: "quotient_of (q / ?p) = (N, D)" by (cases "quotient_of (q / ?p)")
  have x: "0 < q / ?p" using q(2) by simp
  note fl = quotient_floor [OF nd x]
  let ?f = "N div D"
  have p0: "0 < ?p" by simp
  have ps: "?p = pow10r (rat_dec_exp q - 16)" by simp
  have pk: "?p < exp2 ?k" unfolding ps by (rule step_17_bound(1) [OF q(2)])
  have half: "?p / 2 < exp2 (?k - 1)" using pk exp2_pred [of ?k] by linarith
  have lo: "of_nat (nat ?f) = (of_int ?f :: rat)" using fl(1) by simp
  have ok: "round_double (of_nat (nat ?f) * ?p) = q \<or> round_double (of_nat (Suc (nat ?f)) * ?p) = q"
  proof (cases "2 * (q / ?p - of_int ?f) \<le> 1")
    case True
    let ?d = "of_nat (nat ?f) * ?p" and ?t = "q / ?p - of_int ?f"
    have e: "q - ?d = ?t * ?p" using p0 unfolding lo by (simp add: left_diff_distrib)
    have t0: "0 \<le> ?t" using fl(2) by simp
    have dq: "?d \<le> q" "q - ?d \<le> ?p / 2" using half_step [OF p0 t0 True] e by linarith+
    show ?thesis
    proof (cases "exp2 ?F < q \<or> ?k = - 1074")
      case True
      have "q - exp2 (?k - 1) < ?d" using dq(2) half by linarith
      then have "round_double ?d = q" by (rule round_double_near_below_gap [OF q True _ dq(1)])
      then show ?thesis by (rule disjI1)
    next
      case False
      then have pw: "q = exp2 ?F" and k: "?k = ?F - 52"
        using flog2_bounds(1) [OF q(2)] by (auto simp: quantum_def max_def)
      have "?p < exp2 (?F - 53)" unfolding ps by (rule step_17_bound(2) [OF q(2) pw])
      moreover have "2 * exp2 (?k - 2) = exp2 (?F - 53)" using exp2_pred [of "?F - 53"] k by simp
      ultimately have "?p / 2 < exp2 (?k - 2)" by linarith
      then have "q - exp2 (?k - 2) < ?d" using dq(2) by linarith
      then have "round_double ?d = q" by (rule round_double_near_below [OF q _ dq(1)])
      then show ?thesis by (rule disjI1)
    qed
  next
    case False
    let ?d = "of_nat (Suc (nat ?f)) * ?p" and ?t = "of_int ?f + 1 - q / ?p"
    have "?d = (of_int ?f + 1) * ?p" unfolding of_nat_Suc lo by simp
    then have e: "?d - q = ?t * ?p" using p0 by (simp add: left_diff_distrib)
    have t0: "0 \<le> ?t" using fl(3) by simp
    have t1: "2 * ?t \<le> 1" using False by simp
    have dq2: "?d - q \<le> ?p / 2" unfolding e by (rule half_step(2) [OF p0 t0 t1])
    have dq: "q \<le> ?d" "?d - q \<le> ?p / 2" using half_step(1) [OF p0 t0 t1] e dq2 by linarith+
    have "?d < q + exp2 (?k - 1)" using dq(2) half by linarith
    then have "round_double ?d = q" by (rule round_double_near_above [OF q dq(1)])
    then show ?thesis by (rule disjI2)
  qed
  show ?thesis by (rule repr_candidate_None [OF nd ok])
qed

lemma repr_digits_double:
  assumes q: "round_double q = q" "0 < q"
  obtains c s where "repr_digits q = (strip_zeros (nat_digits c), s + int (length (nat_digits c)) - 1)"
    and "0 < c" and "round_double (of_nat c * pow10r s) = q"
proof -
  let ?e = "rat_dec_exp q"
  have "repr_shortest q ?e 1 \<noteq> None"
    by (rule repr_shortest_found [of 1 17]) (simp_all add: repr_candidate_17 [OF q])
  then obtain c s where cs: "repr_shortest q ?e 1 = Some (c, s)" by auto
  then obtain j where j: "repr_candidate q ?e j = Some c" "s = ?e - int j + 1"
    using repr_shortest_Some by blast
  have r: "round_double (of_nat c * pow10r s) = q" using repr_candidate_rounds [OF q j(1)] j(2) by simp
  have "c \<noteq> 0"
  proof
    assume "c = 0"
    then show False using r q(2) by simp
  qed
  moreover have "repr_digits q = (strip_zeros (nat_digits c), s + int (length (nat_digits c)) - 1)"
    using cs by (simp add: repr_digits_def repr_digits_at_def)
  ultimately show ?thesis using r that by simp
qed

end
