(* ===== verification/Calculator.thy ===== *)
theory Calculator
  imports Operations Py_Str Py_Repr
begin

text \<open>
  The interactive loop, src/app/calculator/__init__.py, function \<open>calculator()\<close>.
  \<^item> \<open>operators\<close> is the dictionary of lines 18-23, a map from the four operator
    symbols to the methods of \<open>MathOperations\<close>.
  \<^item> \<open>calc_iteration\<close> is the body of \<open>while True\<close> (lines 31-64) after
    \<open>input()\<close> has returned a line: the lines it prints and how the iteration
    ends, \<open>Continue\<close>, \<open>Break\<close> or an exception that escapes the loop.
  \<^item> The console is explicit state: a \<open>session\<close> holds the lines still to be read
    and the writes made to standard output so far. \<open>py_input\<close> is the built-in
    \<open>input(prompt)\<close> (\<open>Terminal\<close>: it writes the prompt and raises \<open>EOFError\<close>
    at end of input) or the test suite's replacement \<open>lambda _:
    next(input_iterator)\<close> (\<open>Patched\<close>: no prompt, \<open>StopIteration\<close> at the end).
  \<^item> \<open>repl_step\<close> is one iteration of the loop on a session, \<open>repl_loop\<close> the
    whole \<open>while True\<close>, and \<open>calculator\<close> the function: banner, then the loop.
    The loop is total: every iteration that continues consumes one input line.
\<close>

section \<open>The operator table and the messages\<close>

definition operators :: "(string \<times> (pynum \<Rightarrow> pynum \<Rightarrow> pynum py_result)) list" where
  "operators =
     [(''+'', addition), (''-'', subtraction), (''*'', multiplication), (''/'', division)]"

definition banner_msg :: string where
  "banner_msg = ''Welcome to the REPL calculator! Type 'exit' to quit''"

definition prompt_msg :: string where
  "prompt_msg = ''Please enter a calculation: ''"

definition exit_msg :: string where
  "exit_msg = ''Exiting the calculator...''"

definition format_msg :: string where
  "format_msg =
     ''Invalid input. Format: <number> <operator> <number>. Include spaces between each component.''"

definition operator_msg :: string where
  "operator_msg = ''Invalid operator. Please use one of these: +, -, *, or /''"

section \<open>One iteration of the loop\<close>

text \<open>Line 34: the exit test on the stripped line.\<close>

definition is_exit :: "string \<Rightarrow> bool" where
  "is_exit user_input \<longleftrightarrow> py_lower user_input = ''exit''"

text \<open>
  Lines 38-42: unpack exactly three fields of \<open>split()\<close>, then convert the
  first and the third with \<open>float()\<close>, in this order.
\<close>

definition parse_calc :: "string \<Rightarrow> (pyfloat \<times> string \<times> pyfloat) py_result" where
  "parse_calc user_input =
     (case py_split user_input of
        [num1_str, operator, num2_str] \<Rightarrow>
          py_bind (py_float num1_str) (\<lambda>num1.
            py_bind (py_float num2_str) (\<lambda>num2. Inr (num1, operator, num2)))
      | fields \<Rightarrow> Inl (ValueError (Unpack (length fields))))"

datatype control = Continue | Break

text \<open>Lines 34-64 for the line \<open>raw\<close> that \<open>input()\<close> returned.\<close>

definition calc_iteration :: "string \<Rightarrow> string list \<times> control py_result" where
  "calc_iteration raw =
     (let user_input = py_strip raw in
      if is_exit user_input then ([exit_msg], Inr Break)
      else
        (case parse_calc user_input of
           Inl (ValueError _) \<Rightarrow> ([format_msg], Inr Continue)
         | Inl e \<Rightarrow> ([], Inl e)
         | Inr (num1, operator, num2) \<Rightarrow>
             (case map_of operators operator of
                None \<Rightarrow> ([operator_msg], Inr Continue)
              | Some f \<Rightarrow>
                  (case f (PFloat num1) (PFloat num2) of
                     Inl (ValueError v) \<Rightarrow> ([value_error_text v], Inr Continue)
                   | Inl e \<Rightarrow> ([], Inl e)
                   | Inr result \<Rightarrow> ([''Result: '' @ py_str result], Inr Continue)))))"

section \<open>Console and session\<close>

datatype console = Terminal | Patched

record session =
  stdin :: "string list"
  stdout :: "string list"

datatype status = Running | Exited | Raised py_exc

definition py_print :: "string \<Rightarrow> session \<Rightarrow> session" where
  "py_print s st = st\<lparr>stdout := stdout st @ [s @ ''\<newline>'']\<rparr>"

definition py_input :: "console \<Rightarrow> string \<Rightarrow> session \<Rightarrow> string py_result \<times> session" where
  "py_input con prompt st =
     (let st' = (case con of Terminal \<Rightarrow> st\<lparr>stdout := stdout st @ [prompt]\<rparr> | Patched \<Rightarrow> st) in
      case stdin st' of
        [] \<Rightarrow> (Inl (case con of Terminal \<Rightarrow> EOFError | Patched \<Rightarrow> StopIteration), st')
      | l # ls \<Rightarrow> (Inr l, st'\<lparr>stdin := ls\<rparr>))"

text \<open>One iteration of \<open>while True\<close> on a session (lines 31-64).\<close>

definition repl_step :: "console \<Rightarrow> session \<Rightarrow> status \<times> session" where
  "repl_step con st =
     (case py_input con prompt_msg st of
        (Inl e, st') \<Rightarrow> (Raised e, st')
      | (Inr line, st') \<Rightarrow>
          (let (outs, r) = calc_iteration line;
               st'' = fold py_print outs st'
           in (case r of
                 Inr Continue \<Rightarrow> Running
               | Inr Break \<Rightarrow> Exited
               | Inl e \<Rightarrow> Raised e, st'')))"

function repl_loop :: "console \<Rightarrow> session \<Rightarrow> status \<times> session" where
  "repl_loop con st =
     (let (s, st') = repl_step con st in if s = Running then repl_loop con st' else (s, st'))"
  by pat_completeness auto
termination
proof (relation "measure (\<lambda>(con, st). length (stdin st))")
  fix con st x s st'
  assume x: "x = repl_step con st" and p: "(s, st') = x" and r: "s = Running"
  show "((con, st'), con, st) \<in> measure (\<lambda>(con, st). length (stdin st))"
  proof (cases "stdin st")
    case Nil
    with x p r show ?thesis
      by (cases con) (simp_all add: repl_step_def py_input_def)
  next
    case (Cons l ls)
    have "stdin (fold py_print outs s0) = stdin s0" for outs s0
      by (induction outs arbitrary: s0) (simp_all add: py_print_def)
    with x p r Cons show ?thesis
      by (cases con)
        (auto simp: repl_step_def py_input_def split: prod.splits sum.splits control.splits)
  qed
qed simp

declare repl_loop.simps [simp del]

text \<open>
  The same loop run with a budget of \<open>n\<close> iterations: \<open>None\<close> when the budget is
  spent while the loop is still running. It states how many iterations of
  \<open>while True\<close> a session takes.
\<close>

fun repl_iter :: "console \<Rightarrow> nat \<Rightarrow> session \<Rightarrow> (status \<times> session) option" where
  "repl_iter con 0 st = None"
| "repl_iter con (Suc n) st =
     (let (s, st') = repl_step con st in if s = Running then repl_iter con n st' else Some (s, st'))"

text \<open>The text one iteration writes: each printed line followed by a newline.\<close>

definition iteration_writes :: "string \<Rightarrow> string list" where
  "iteration_writes l = map (\<lambda>s. s @ ''\<newline>'') (fst (calc_iteration l))"

text \<open>What \<open>input()\<close> writes before it reads, and what it raises at end of input.\<close>

definition prompt_writes :: "console \<Rightarrow> string list" where
  "prompt_writes con = (case con of Terminal \<Rightarrow> [prompt_msg] | Patched \<Rightarrow> [])"

definition eof_exc :: "console \<Rightarrow> py_exc" where
  "eof_exc con = (case con of Terminal \<Rightarrow> EOFError | Patched \<Rightarrow> StopIteration)"

text \<open>
  The abstract specification of one calculation line (spec 4.2, steps 4-5): the
  line printed for two parsed operands and an operator symbol.
\<close>

definition expected_line :: "string \<Rightarrow> pyfloat \<Rightarrow> pyfloat \<Rightarrow> string" where
  "expected_line op x y =
     (if op = ''+'' then ''Result: '' @ float_repr (fadd x y)
      else if op = ''-'' then ''Result: '' @ float_repr (fsub x y)
      else if op = ''*'' then ''Result: '' @ float_repr (fmul x y)
      else if op = ''/'' then
        (if fzero y then ''Division by zero is not allowed.''
         else ''Result: '' @ float_repr (fdiv x y))
      else ''Invalid operator. Please use one of these: +, -, *, or /'')"

text \<open>Lines 9-64: print the banner, then run the loop; the status and all writes.\<close>

definition calculator :: "console \<Rightarrow> string list \<Rightarrow> status \<times> string list" where
  "calculator con inputs =
     (let st0 = py_print banner_msg \<lparr>stdin = inputs, stdout = []\<rparr>;
          (s, st) = repl_loop con st0
      in (s, stdout st))"

text \<open>
  The loop as a state machine: the states reachable from the banner by
  iterations that continue (\<open>Running\<close>); an \<open>Exited\<close> or \<open>Raised\<close> state is
  final.
\<close>

inductive repl_reach :: "console \<Rightarrow> string list \<Rightarrow> status \<Rightarrow> session \<Rightarrow> bool"
  for con :: console and inputs :: "string list" where
  start: "repl_reach con inputs Running (py_print banner_msg \<lparr>stdin = inputs, stdout = []\<rparr>)"
| step: "repl_reach con inputs Running st \<Longrightarrow> repl_step con st = (s', st') \<Longrightarrow>
    repl_reach con inputs s' st'"

inductive_cases repl_reach_ExitedE: "repl_reach con inputs Exited st"
inductive_cases repl_reach_RaisedE: "repl_reach con inputs (Raised e) st"

lemmas calculator_eval [model_eval] =
  operators_def banner_msg_def prompt_msg_def exit_msg_def format_msg_def operator_msg_def
  is_exit_def parse_calc_def calc_iteration_def py_print_def py_input_def repl_step_def
  calculator_def

section \<open>Facts about one iteration\<close>

lemma map_of_operators:
  "map_of operators op =
     (if op = ''+'' then Some addition else if op = ''-'' then Some subtraction
      else if op = ''*'' then Some multiplication else if op = ''/'' then Some division
      else None)"
  by (simp add: operators_def)

lemma py_float_Inl: "py_float s = Inl e \<Longrightarrow> e = ValueError (NotAFloat s)"
  by (auto simp: py_float_def split: option.splits)

lemma parse_calc_Inr:
  "parse_calc s = Inr (x, op, y) \<longleftrightarrow>
   (\<exists>a b. py_split s = [a, op, b] \<and> py_float a = Inr x \<and> py_float b = Inr y)"
  by (auto simp: parse_calc_def py_bind_eq_Inr split: list.splits)

lemma parse_calc_Inl: "parse_calc s = Inl e \<Longrightarrow> \<exists>v. e = ValueError v"
  by (auto simp: parse_calc_def py_bind_eq_Inl split: list.splits dest: py_float_Inl)

text \<open>On two floats an operator of the table raises at most the division \<open>ValueError\<close>.\<close>

lemma operators_floats:
  assumes "map_of operators op = Some f" and "f (PFloat x) (PFloat y) = Inl e"
  shows "e = ValueError (Msg division_msg)"
  using assms
  by (auto simp: map_of_operators addition_def subtraction_def multiplication_def
      division_floats split: if_splits)

lemma operators_floats_Inr:
  assumes "map_of operators op = Some f" and "f (PFloat x) (PFloat y) = Inr r"
  shows "\<exists>z. r = PFloat z \<and> wf_float z"
  using assms
  by (auto simp: map_of_operators addition_def subtraction_def multiplication_def
      division_floats split: if_splits)

text \<open>A line \<open>Result: t\<close> comes only from an operator of the table that returned.\<close>

lemma result_line_cases:
  assumes "calc_iteration l = ([''Result: '' @ t], c)"
  shows "\<exists>x op y f z. parse_calc (py_strip l) = Inr (x, op, y) \<and> map_of operators op = Some f \<and>
    f (PFloat x) (PFloat y) = Inr z \<and> t = py_str z"
proof -
  have ne: "\<not> is_exit (py_strip l)"
    using assms by (auto simp: calc_iteration_def exit_msg_def)
  obtain x op y where p: "parse_calc (py_strip l) = Inr (x, op, y)"
    using assms ne
    by (cases "parse_calc (py_strip l)") (auto simp: calc_iteration_def format_msg_def dest!: parse_calc_Inl)
  obtain f where f: "map_of operators op = Some f"
    using assms ne p by (cases "map_of operators op") (auto simp: calc_iteration_def operator_msg_def)
  have "\<exists>z. f (PFloat x) (PFloat y) = Inr z \<and> t = py_str z"
  proof (cases "f (PFloat x) (PFloat y)")
    case (Inl e)
    then have "e = ValueError (Msg division_msg)" by (rule operators_floats [OF f])
    with Inl assms ne p f show ?thesis by (simp add: calc_iteration_def division_msg_def)
  next
    case (Inr z)
    with assms ne p f show ?thesis by (simp add: calc_iteration_def)
  qed
  with p f show ?thesis by blast
qed

lemma py_isspace_lower: "py_isspace c \<Longrightarrow> py_lower_char c = c"
  by (auto simp: py_isspace_def py_lower_char_def Let_def)

lemma py_split_no_space:
  assumes "s \<noteq> []" and "\<forall>c \<in> set s. \<not> py_isspace c"
  shows "py_split s = [s]"
proof -
  have d1: "dropWhile py_isspace s = s" using assms by (cases s) auto
  have t: "takeWhile (\<lambda>c. \<not> py_isspace c) s = s" using assms(2) by simp
  have d2: "dropWhile (\<lambda>c. \<not> py_isspace c) s = []" using assms(2) by simp
  show ?thesis using assms(1)
    by (simp add: py_split.simps [of s] Let_def d1 t d2 del: dropWhile_eq_Nil_conv)
qed

lemma is_exit_no_space: "is_exit s \<Longrightarrow> \<forall>c \<in> set s. \<not> py_isspace c"
proof
  fix c
  assume e: "is_exit s" and c: "c \<in> set s"
  have "py_lower_char c \<in> set ''exit''"
    using e c by (auto simp: is_exit_def py_lower_def dest: sym)
  moreover have "py_isspace c \<Longrightarrow> c \<notin> set ''exit''"
    by (auto simp: py_isspace_def)
  ultimately show "\<not> py_isspace c" using py_isspace_lower by metis
qed

lemma is_exit_split:
  assumes "is_exit s"
  shows "py_split s = [s]"
proof (rule py_split_no_space)
  show "s \<noteq> []" using assms by (auto simp: is_exit_def py_lower_def)
  show "\<forall>c \<in> set s. \<not> py_isspace c" using assms by (rule is_exit_no_space)
qed

lemma fold_py_print:
  "fold py_print outs st = st\<lparr>stdout := stdout st @ map (\<lambda>s. s @ ''\<newline>'') outs\<rparr>"
  by (induction outs arbitrary: st) (simp_all add: py_print_def)

lemma py_lower_char_ascii:
  assumes "97 \<le> (of_char d :: nat)" "(of_char d :: nat) \<le> 122"
  shows "py_lower_char c = d \<longleftrightarrow> c = d \<or> c = char_of (of_char d - (32 :: nat))"
proof
  assume l: "py_lower_char c = d"
  show "c = d \<or> c = char_of (of_char d - (32 :: nat))"
  proof (cases "(65 \<le> (of_char c :: nat) \<and> (of_char c :: nat) \<le> 90) \<or>
                (192 \<le> (of_char c :: nat) \<and> (of_char c :: nat) \<le> 222 \<and> (of_char c :: nat) \<noteq> 215)")
    case True
    with l have "char_of (of_char c + (32 :: nat)) = d" by (simp add: py_lower_char_def)
    then have "of_char (char_of (of_char c + (32 :: nat))) = (of_char d :: nat)" by simp
    with True have "(of_char c :: nat) = of_char d - 32" by auto
    then have "char_of (of_char c :: nat) = char_of (of_char d - (32 :: nat))" by simp
    then show ?thesis by simp
  next
    case False
    with l show ?thesis by (simp add: py_lower_char_def)
  qed
next
  assume "c = d \<or> c = char_of (of_char d - (32 :: nat))"
  then show "py_lower_char c = d"
  proof
    assume "c = d"
    with assms show ?thesis by (simp add: py_lower_char_def)
  next
    assume c: "c = char_of (of_char d - (32 :: nat))"
    with assms have n: "(of_char c :: nat) = of_char d - 32" by simp
    with assms have "(of_char c :: nat) + 32 = of_char d" by simp
    with n assms show ?thesis by (auto simp: py_lower_char_def Let_def)
  qed
qed

lemma upper_exit_chars:
  "char_of (69 :: nat) = CHR ''E''" "char_of (88 :: nat) = CHR ''X''"
  "char_of (73 :: nat) = CHR ''I''" "char_of (84 :: nat) = CHR ''T''"
  by (simp_all add: char_of_eq_iff)

lemma exit_letters:
  "py_lower_char c = CHR ''e'' \<longleftrightarrow> c \<in> {CHR ''e'', CHR ''E''}"
  "py_lower_char c = CHR ''x'' \<longleftrightarrow> c \<in> {CHR ''x'', CHR ''X''}"
  "py_lower_char c = CHR ''i'' \<longleftrightarrow> c \<in> {CHR ''i'', CHR ''I''}"
  "py_lower_char c = CHR ''t'' \<longleftrightarrow> c \<in> {CHR ''t'', CHR ''T''}"
  by (subst py_lower_char_ascii; simp add: upper_exit_chars)+

lemma is_exit_casings:
  "is_exit s \<longleftrightarrow>
   (\<exists>a b c d. s = [a, b, c, d] \<and> a \<in> {CHR ''e'', CHR ''E''} \<and> b \<in> {CHR ''x'', CHR ''X''} \<and>
      c \<in> {CHR ''i'', CHR ''I''} \<and> d \<in> {CHR ''t'', CHR ''T''})"
  (is "_ \<longleftrightarrow> (\<exists>a b c d. s = [a, b, c, d] \<and> ?L a b c d)")
proof
  assume "is_exit s"
  then have "map py_lower_char s = ''exit''" by (simp add: is_exit_def py_lower_def)
  then obtain a b c d where s: "s = [a, b, c, d]" and
    l: "py_lower_char a = CHR ''e''" "py_lower_char b = CHR ''x''"
       "py_lower_char c = CHR ''i''" "py_lower_char d = CHR ''t''"
    by (auto simp: map_eq_Cons_conv)
  from l have "?L a b c d" by (simp only: exit_letters)
  with s show "\<exists>a b c d. s = [a, b, c, d] \<and> ?L a b c d" by blast
next
  assume "\<exists>a b c d. s = [a, b, c, d] \<and> ?L a b c d"
  then obtain a b c d where s: "s = [a, b, c, d]" and l: "?L a b c d" by blast
  from l have "py_lower_char a = CHR ''e'' \<and> py_lower_char b = CHR ''x'' \<and>
      py_lower_char c = CHR ''i'' \<and> py_lower_char d = CHR ''t''"
    by (simp only: exit_letters)
  with s show "is_exit s" by (simp add: is_exit_def py_lower_def)
qed

lemma calc_iteration_exit:
  "is_exit (py_strip l) \<Longrightarrow> calc_iteration l = ([exit_msg], Inr Break)"
  by (simp add: calc_iteration_def)

lemma calc_iteration_not_exit:
  "\<not> is_exit (py_strip l) \<Longrightarrow> snd (calc_iteration l) \<noteq> Inr Break"
  by (auto simp: calc_iteration_def split: sum.splits py_exc.splits option.splits prod.splits)

lemma calc_iteration_shape: "\<exists>msg c. calc_iteration l = ([msg], Inr c)"
proof (cases "is_exit (py_strip l)")
  case True
  then show ?thesis by (simp add: calc_iteration_def)
next
  case False
  show ?thesis
  proof (cases "parse_calc (py_strip l)")
    case (Inl e)
    with False show ?thesis by (auto simp: calc_iteration_def dest: parse_calc_Inl)
  next
    case (Inr r)
    obtain x op y where r: "r = (x, op, y)" by (cases r) auto
    show ?thesis
    proof (cases "map_of operators op")
      case None
      with False Inr r show ?thesis by (simp add: calc_iteration_def)
    next
      case (Some f)
      with False Inr r show ?thesis
        by (auto simp: calc_iteration_def split: sum.splits py_exc.splits
            dest: operators_floats [OF Some])
    qed
  qed
qed

lemma parse_calc_not3:
  "length (py_split s) \<noteq> 3 \<Longrightarrow> parse_calc s = Inl (ValueError (Unpack (length (py_split s))))"
  by (auto simp: parse_calc_def split: list.splits)

lemma parse_calc_3:
  "py_split s = [a, op, b] \<Longrightarrow>
   parse_calc s = py_bind (py_float a) (\<lambda>x. py_bind (py_float b) (\<lambda>y. Inr (x, op, y)))"
  by (simp add: parse_calc_def)

lemma three_fields_not_exit: "py_split s = [a, op, b] \<Longrightarrow> \<not> is_exit s"
  using is_exit_split by fastforce

section \<open>Facts about the loop\<close>

lemma repl_step_nil:
  "stdin st = [] \<Longrightarrow>
   repl_step con st = (Raised (eof_exc con), \<lparr>stdin = [], stdout = stdout st @ prompt_writes con\<rparr>)"
  by (cases st; cases con) (simp_all add: repl_step_def py_input_def eof_exc_def prompt_writes_def)

lemma calc_iteration_control:
  "\<exists>msg. calc_iteration l =
     ([msg], Inr (if is_exit (py_strip l) then Break else Continue))"
proof -
  obtain msg c where mc: "calc_iteration l = ([msg], Inr c)"
    using calc_iteration_shape by blast
  show ?thesis
  proof (cases "is_exit (py_strip l)")
    case True
    then show ?thesis by (simp add: calc_iteration_exit)
  next
    case False
    then have "c \<noteq> Break" using calc_iteration_not_exit mc by fastforce
    with False mc show ?thesis by (cases c) simp_all
  qed
qed

lemma repl_step_cons:
  assumes "stdin st = l # ls"
  shows "repl_step con st =
    (if is_exit (py_strip l) then Exited else Running,
     \<lparr>stdin = ls, stdout = stdout st @ prompt_writes con @ iteration_writes l\<rparr>)"
proof -
  obtain msg where m: "calc_iteration l =
      ([msg], Inr (if is_exit (py_strip l) then Break else Continue))"
    using calc_iteration_control by blast
  show ?thesis
    using assms m
    by (cases st; cases con)
      (simp_all add: repl_step_def py_input_def prompt_writes_def iteration_writes_def
        fold_py_print)
qed

lemma repl_loop_unfold:
  "repl_loop con st =
     (let (s, st') = repl_step con st in if s = Running then repl_loop con st' else (s, st'))"
  by (rule repl_loop.simps)

lemma repl_loop_stdin:
  "repl_loop con st =
     (let pre = takeWhile (\<lambda>l. \<not> is_exit (py_strip l)) (stdin st);
          out = stdout st @ concat (map (\<lambda>l. prompt_writes con @ iteration_writes l) pre)
      in case dropWhile (\<lambda>l. \<not> is_exit (py_strip l)) (stdin st) of
           [] \<Rightarrow> (Raised (eof_exc con), \<lparr>stdin = [], stdout = out @ prompt_writes con\<rparr>)
         | x # rest \<Rightarrow>
             (Exited, \<lparr>stdin = rest, stdout = out @ prompt_writes con @ iteration_writes x\<rparr>))"
proof (induction "stdin st" arbitrary: st)
  case Nil
  then show ?case by (simp add: repl_loop_unfold repl_step_nil)
next
  case (Cons l ls)
  show ?case
  proof (cases "is_exit (py_strip l)")
    case True
    with Cons.hyps(2) [symmetric] show ?thesis
      by (simp add: repl_loop_unfold repl_step_cons)
  next
    case False
    let ?st' = "\<lparr>stdin = ls, stdout = stdout st @ prompt_writes con @ iteration_writes l\<rparr>"
    have "repl_loop con st = repl_loop con ?st'"
      using False Cons.hyps(2) [symmetric] by (simp add: repl_loop_unfold repl_step_cons)
    also have "\<dots> = (let pre = takeWhile (\<lambda>l. \<not> is_exit (py_strip l)) (stdin ?st');
          out = stdout ?st' @ concat (map (\<lambda>l. prompt_writes con @ iteration_writes l) pre)
      in case dropWhile (\<lambda>l. \<not> is_exit (py_strip l)) (stdin ?st') of
           [] \<Rightarrow> (Raised (eof_exc con), \<lparr>stdin = [], stdout = out @ prompt_writes con\<rparr>)
         | x # rest \<Rightarrow>
             (Exited, \<lparr>stdin = rest, stdout = out @ prompt_writes con @ iteration_writes x\<rparr>))"
      by (rule Cons.hyps(1)) simp
    finally show ?thesis
      using False Cons.hyps(2) [symmetric] by (simp split: list.splits)
  qed
qed

lemma iteration_writes_exit:
  "is_exit (py_strip l) \<Longrightarrow> iteration_writes l = [exit_msg @ ''\<newline>'']"
  by (simp add: iteration_writes_def calc_iteration_exit)

lemma stdin_py_print [simp]: "stdin (py_print s st) = stdin st"
  by (simp add: py_print_def)

lemma dropWhile_hd_exit:
  "dropWhile (\<lambda>l. \<not> is_exit (py_strip l)) xs = x # rest \<Longrightarrow> is_exit (py_strip x)"
  by (metis (mono_tags, lifting) hd_dropWhile list.discI list.sel(1))

lemma reach_running_loop:
  "repl_reach con inputs s st \<Longrightarrow> s = Running \<Longrightarrow>
   repl_loop con st = repl_loop con (py_print banner_msg \<lparr>stdin = inputs, stdout = []\<rparr>)"
proof (induction rule: repl_reach.induct)
  case start
  then show ?case by simp
next
  case (step st s' st')
  then show ?case by (simp add: repl_loop_unfold [of con st])
qed

lemma reach_running_final:
  "repl_reach con inputs Running st \<Longrightarrow> \<exists>s st'. s \<noteq> Running \<and> repl_reach con inputs s st'"
proof (induction "stdin st" arbitrary: st)
  case Nil
  then have "repl_reach con inputs (Raised (eof_exc con))
      \<lparr>stdin = [], stdout = stdout st @ prompt_writes con\<rparr>"
    by (intro repl_reach.step [OF Nil.prems]) (simp add: repl_step_nil)
  then show ?case by blast
next
  case (Cons l ls)
  let ?st' = "\<lparr>stdin = ls, stdout = stdout st @ prompt_writes con @ iteration_writes l\<rparr>"
  have r: "repl_reach con inputs (if is_exit (py_strip l) then Exited else Running) ?st'"
    by (rule repl_reach.step [OF Cons.prems]) (simp add: repl_step_cons Cons.hyps(2) [symmetric])
  show ?case
  proof (cases "is_exit (py_strip l)")
    case True
    with r show ?thesis by auto
  next
    case False
    with r have "repl_reach con inputs Running ?st'" by simp
    then show ?thesis using Cons.hyps(1) [of ?st'] by simp
  qed
qed

section \<open>Behaviour of one iteration\<close>

text \<open>
  C3: one iteration never lets an exception escape the loop and prints exactly one
  line: the exit notice, one of the three error messages, or a result line.
\<close>

theorem iteration_outcomes:
  "\<exists>msg c. calc_iteration l = ([msg], Inr c) \<and>
     (msg \<in> {exit_msg, format_msg, operator_msg, ''Division by zero is not allowed.''} \<or>
      (\<exists>r. msg = ''Result: '' @ float_repr r))"
proof (cases "is_exit (py_strip l)")
  case True
  then show ?thesis by (simp add: calc_iteration_def)
next
  case False
  show ?thesis
  proof (cases "parse_calc (py_strip l)")
    case (Inl e)
    with False show ?thesis by (auto simp: calc_iteration_def dest: parse_calc_Inl)
  next
    case (Inr r)
    obtain x op y where r: "r = (x, op, y)" by (cases r) auto
    with False Inr show ?thesis
      by (auto simp: calc_iteration_def map_of_operators addition_def subtraction_def
          multiplication_def division_floats division_msg_def)
  qed
qed

text \<open>
  C1: refinement of the specification of a calculation line. For a line that
  splits into three fields whose first and third convert with \<open>float()\<close>, the
  iteration prints exactly the line \<open>expected_line\<close> prescribes (the result of the
  operator bound to the symbol, the division error for a zero divisor, the
  operator error for any other symbol) and continues.
\<close>

theorem iteration_dispatch:
  assumes s: "py_split (py_strip l) = [a, op, b]"
    and x: "py_float a = Inr x" and y: "py_float b = Inr y"
  shows "calc_iteration l = ([expected_line op x y], Inr Continue)"
proof -
  have ne: "\<not> is_exit (py_strip l)" using s by (rule three_fields_not_exit)
  have p: "parse_calc (py_strip l) = Inr (x, op, y)" using s x y by (simp add: parse_calc_3)
  show ?thesis
    using ne p
    by (simp add: calc_iteration_def map_of_operators expected_line_def addition_def
        subtraction_def multiplication_def division_floats division_msg_def operator_msg_def)
qed

theorem iteration_dispatch_witness:
  "py_split (py_strip ''3 / 0'') = [''3'', ''/'', ''0''] \<and> py_float ''3'' = Inr (Fin 3) \<and>
   py_float ''0'' = Inr (Fin 0) \<and>
   calc_iteration ''3 / 0'' = ([expected_line ''/'' (Fin 3) (Fin 0)], Inr Continue)"
proof -
  have s: "py_split (py_strip ''3 / 0'') = [''3'', ''/'', ''0'']"
    and x: "py_float ''3'' = Inr (Fin 3)" and y: "py_float ''0'' = Inr (Fin 0)"
    by (simp_all add: model_eval rat_eval)
  show ?thesis using iteration_dispatch [OF s x y] s x y by simp
qed

text \<open>
  C4: a line that is not the exit keyword and does not split into three fields,
  or whose first or third field \<open>float()\<close> rejects, prints the format error and
  the loop continues; this check comes before the operator check.
\<close>

theorem iteration_invalid_format:
  assumes ne: "\<not> is_exit (py_strip l)"
    and bad: "length (py_split (py_strip l)) \<noteq> 3 \<or>
      (\<exists>a op b. py_split (py_strip l) = [a, op, b] \<and> (isl (py_float a) \<or> isl (py_float b)))"
  shows "calc_iteration l = ([format_msg], Inr Continue)"
proof -
  have "\<exists>v. parse_calc (py_strip l) = Inl (ValueError v)"
    using bad
  proof
    assume "length (py_split (py_strip l)) \<noteq> 3"
    then show ?thesis by (simp add: parse_calc_not3)
  next
    assume "\<exists>a op b. py_split (py_strip l) = [a, op, b] \<and> (isl (py_float a) \<or> isl (py_float b))"
    then obtain a op b where s: "py_split (py_strip l) = [a, op, b]"
      and i: "isl (py_float a) \<or> isl (py_float b)" by blast
    from i show ?thesis
      by (auto simp: parse_calc_3 [OF s] isl_def py_bind_def split: sum.splits
          dest: py_float_Inl)
  qed
  with ne show ?thesis by (auto simp: calc_iteration_def)
qed

theorem iteration_invalid_format_witness:
  "is_exit (py_strip ''five + one'') = False \<and>
   py_split (py_strip ''five + one'') = [''five'', ''+'', ''one''] \<and> isl (py_float ''five'') \<and>
   calc_iteration ''five + one'' = ([format_msg], Inr Continue)"
proof -
  have ne: "\<not> is_exit (py_strip ''five + one'')"
    by (simp add: model_eval)
  have s: "py_split (py_strip ''five + one'') = [''five'', ''+'', ''one'']"
    by (simp add: model_eval)
  have f: "isl (py_float ''five'')" by (simp add: model_eval)
  have bad: "length (py_split (py_strip ''five + one'')) \<noteq> 3 \<or>
    (\<exists>a op b. py_split (py_strip ''five + one'') = [a, op, b] \<and>
       (isl (py_float a) \<or> isl (py_float b)))"
    using s f by blast
  show ?thesis using iteration_invalid_format [OF ne bad] ne s f by simp
qed

text \<open>
  C5: the loop ends exactly on a line whose stripped text is \<open>exit\<close> in any
  mix of cases (\<open>EXIT\<close>, \<open>Exit\<close>, \<open>eXiT\<close>, ...), and it then prints the exit
  notice.
\<close>

theorem iteration_exit_iff:
  "snd (calc_iteration l) = Inr Break \<longleftrightarrow>
   (\<exists>a b c d. py_strip l = [a, b, c, d] \<and> a \<in> {CHR ''e'', CHR ''E''} \<and>
      b \<in> {CHR ''x'', CHR ''X''} \<and> c \<in> {CHR ''i'', CHR ''I''} \<and> d \<in> {CHR ''t'', CHR ''T''})"
  using calc_iteration_exit calc_iteration_not_exit is_exit_casings
  by (metis snd_conv)

section \<open>Behaviour of the whole loop\<close>

text \<open>
  C2: the output of a whole session. The banner, then for every line before the
  first exit line the prompt and exactly what that line alone prints (no state
  of one iteration reaches the next), then a last prompt; the session ends
  \<open>Exited\<close> with the exit notice at the first exit line, and otherwise raises
  the console's end-of-input exception once the input is exhausted.
\<close>

theorem calculator_run:
  "calculator con inputs =
     (let pre = takeWhile (\<lambda>l. \<not> is_exit (py_strip l)) inputs;
          out = (banner_msg @ ''\<newline>'') #
                concat (map (\<lambda>l. prompt_writes con @ iteration_writes l) pre) @ prompt_writes con
      in if pre = inputs then (Raised (eof_exc con), out)
         else (Exited, out @ [exit_msg @ ''\<newline>'']))"
proof (cases "dropWhile (\<lambda>l. \<not> is_exit (py_strip l)) inputs")
  case Nil
  then have "takeWhile (\<lambda>l. \<not> is_exit (py_strip l)) inputs = inputs"
    by (simp add: takeWhile_eq_all_conv)
  with Nil show ?thesis
    by (simp add: calculator_def repl_loop_stdin [of con] py_print_def del: dropWhile_eq_Nil_conv)
next
  case (Cons x rest)
  then have "is_exit (py_strip x)" by (rule dropWhile_hd_exit)
  moreover have "takeWhile (\<lambda>l. \<not> is_exit (py_strip l)) inputs \<noteq> inputs"
  proof -
    have "x \<in> set inputs" using Cons by (metis list.set_intros(1) set_dropWhileD)
    with \<open>is_exit (py_strip x)\<close> show ?thesis by (auto simp: takeWhile_eq_all_conv)
  qed
  ultimately show ?thesis using Cons
    by (simp add: calculator_def repl_loop_stdin [of con] py_print_def iteration_writes_exit
        del: takeWhile_eq_all_conv)
qed

text \<open>
  End of input is not handled. When no line of the input is an exit line,
  the session on the terminal ends with \<open>EOFError\<close> escaping \<open>calculator()\<close>
  (a traceback), after the banner, every line's output and a last prompt; the
  specification asks that a closed input end the loop gracefully.
\<close>

theorem calculator_eof:
  assumes "\<forall>l \<in> set inputs. \<not> is_exit (py_strip l)"
  shows "calculator Terminal inputs =
    (Raised EOFError,
     (banner_msg @ ''\<newline>'') # concat (map (\<lambda>l. prompt_msg # iteration_writes l) inputs) @ [prompt_msg])"
proof -
  have d: "dropWhile (\<lambda>l. \<not> is_exit (py_strip l)) inputs = []"
    using assms by simp
  have t: "takeWhile (\<lambda>l. \<not> is_exit (py_strip l)) inputs = inputs"
    using assms by simp
  show ?thesis
    by (simp add: calculator_def repl_loop_stdin [of Terminal] py_print_def prompt_writes_def
        eof_exc_def d t del: dropWhile_eq_Nil_conv)
qed

theorem calculator_eof_witness:
  "is_exit (py_strip ''3 + 3'') = False \<and>
   calculator Terminal [''3 + 3''] =
    (Raised EOFError,
     [banner_msg @ ''\<newline>'', prompt_msg] @ iteration_writes ''3 + 3'' @ [prompt_msg])"
proof -
  have h: "\<forall>l \<in> set [''3 + 3'']. \<not> is_exit (py_strip l)" by (simp add: model_eval)
  show ?thesis using calculator_eof [OF h] h by simp
qed

text \<open>The one-line session \<open>exit\<close> on the patched console reaches \<open>Exited\<close>.\<close>

lemma repl_reach_exit_line:
  "repl_reach Patched [''exit''] Exited
     \<lparr>stdin = [], stdout = [banner_msg @ ''\<newline>'', exit_msg @ ''\<newline>'']\<rparr>"
proof (rule repl_reach.step [OF repl_reach.start])
  have "is_exit (py_strip ''exit'')" by (simp add: model_eval)
  then show "repl_step Patched (py_print banner_msg \<lparr>stdin = [''exit''], stdout = []\<rparr>) =
      (Exited, \<lparr>stdin = [], stdout = [banner_msg @ ''\<newline>'', exit_msg @ ''\<newline>'']\<rparr>)"
    by (simp add: repl_step_cons py_print_def prompt_writes_def iteration_writes_exit)
qed

text \<open>
  C11: the invariant of the state machine. In every reachable state the lines
  consumed so far are a prefix of the input; while running none of them was an
  exit line; the state \<open>Exited\<close> is reached only right after the first exit line;
  an exception ends the loop only as the console's end-of-input exception, with
  the input exhausted and no exit line in it.
\<close>

theorem repl_reach_invariant:
  "repl_reach con inputs s st \<Longrightarrow>
   (s = Running \<longrightarrow> (\<exists>pre. inputs = pre @ stdin st \<and> (\<forall>l \<in> set pre. \<not> is_exit (py_strip l)))) \<and>
   (s = Exited \<longrightarrow> (\<exists>pre l. inputs = pre @ l # stdin st \<and> is_exit (py_strip l) \<and>
                            (\<forall>l' \<in> set pre. \<not> is_exit (py_strip l')))) \<and>
   (\<forall>e. s = Raised e \<longrightarrow>
        e = eof_exc con \<and> stdin st = [] \<and> (\<forall>l \<in> set inputs. \<not> is_exit (py_strip l)))"
proof (induction rule: repl_reach.induct)
  case start
  then show ?case by simp
next
  case (step st s' st')
  then obtain pre where pre: "inputs = pre @ stdin st" "\<forall>l \<in> set pre. \<not> is_exit (py_strip l)"
    by blast
  show ?case
  proof (cases "stdin st")
    case Nil
    with step.hyps(2) pre show ?thesis by (auto simp: repl_step_nil)
  next
    case (Cons l ls)
    with step.hyps(2) have s': "s' = (if is_exit (py_strip l) then Exited else Running)"
      and st': "stdin st' = ls"
      by (auto simp: repl_step_cons)
    show ?thesis
    proof (cases "is_exit (py_strip l)")
      case True
      with s' st' pre Cons show ?thesis by auto
    next
      case False
      with s' st' pre Cons have "inputs = (pre @ [l]) @ stdin st'"
        "\<forall>l' \<in> set (pre @ [l]). \<not> is_exit (py_strip l')" by auto
      moreover have "s' = Running" using False s' by simp
      ultimately show ?thesis by blast
    qed
  qed
qed

theorem repl_reach_invariant_witness:
  "repl_reach Patched [''exit''] Exited
     \<lparr>stdin = [], stdout = [banner_msg @ ''\<newline>'', exit_msg @ ''\<newline>'']\<rparr> \<and>
   [''exit''] = [] @ ''exit'' # stdin
     \<lparr>stdin = [], stdout = [banner_msg @ ''\<newline>'', exit_msg @ ''\<newline>'']\<rparr> \<and>
   is_exit (py_strip ''exit'')"
proof -
  let ?st1 = "\<lparr>stdin = [], stdout = [banner_msg @ ''\<newline>'', exit_msg @ ''\<newline>'']\<rparr>"
  have e: "is_exit (py_strip ''exit'')" by (simp add: model_eval)
  have r: "repl_reach Patched [''exit''] Exited ?st1" by (rule repl_reach_exit_line)
  have "\<exists>pre l. [''exit''] = pre @ l # stdin ?st1 \<and> is_exit (py_strip l) \<and>
      (\<forall>l' \<in> set pre. \<not> is_exit (py_strip l'))"
    using repl_reach_invariant [OF r] by simp
  then show ?thesis using r e by simp
qed

text \<open>
  The state machine and the function agree: a final state reachable from
  the banner is the status and the output that \<open>calculator\<close> returns.
\<close>

theorem repl_reach_calculator:
  assumes r: "repl_reach con inputs s st" and f: "s \<noteq> Running"
  shows "calculator con inputs = (s, stdout st)"
proof -
  from r f obtain st0 where r0: "repl_reach con inputs Running st0"
    and st: "repl_step con st0 = (s, st)"
    by (cases rule: repl_reach.cases) auto
  have "repl_loop con st0 = (s, st)"
    using st f by (simp add: repl_loop_unfold [of con st0])
  moreover have "repl_loop con st0 =
      repl_loop con (py_print banner_msg \<lparr>stdin = inputs, stdout = []\<rparr>)"
    using r0 by (rule reach_running_loop) simp
  ultimately show ?thesis by (simp add: calculator_def)
qed

theorem repl_reach_calculator_witness:
  "repl_reach Patched [''exit''] Exited
     \<lparr>stdin = [], stdout = [banner_msg @ ''\<newline>'', exit_msg @ ''\<newline>'']\<rparr> \<and>
   (Exited = Running) = False \<and>
   calculator Patched [''exit''] = (Exited, [banner_msg @ ''\<newline>'', exit_msg @ ''\<newline>''])"
proof -
  let ?st1 = "\<lparr>stdin = [], stdout = [banner_msg @ ''\<newline>'', exit_msg @ ''\<newline>'']\<rparr>"
  have e: "is_exit (py_strip ''exit'')" by (simp add: model_eval)
  have r: "repl_reach Patched [''exit''] Exited ?st1" by (rule repl_reach_exit_line)
  show ?thesis using repl_reach_calculator [OF r] r by simp
qed

text \<open>
  Liveness: from the banner, every input leads the loop to a final state,
  \<open>Exited\<close> or an escaping exception, in finitely many iterations.
\<close>

theorem repl_reach_terminates: "\<exists>s st. s \<noteq> Running \<and> repl_reach con inputs s st"
  by (rule reach_running_final [OF repl_reach.start])

lemma repl_step_running_stdin:
  "repl_step con st = (Running, st') \<Longrightarrow> length (stdin st') < length (stdin st)"
  by (cases "stdin st") (auto simp: repl_step_nil repl_step_cons split: if_splits)

text \<open>
  Termination of the loop with an explicit bound: on a session with
  \<open>k\<close> unread lines, \<open>while True\<close> ends after at most \<open>k + 1\<close> iterations (one
  per line and one more that meets the end of input), with a final status that
  is not \<open>Running\<close>, and that run is the one \<open>repl_loop\<close> computes.
\<close>

theorem repl_iter_enough_fuel:
  "length (stdin st) < n \<Longrightarrow>
   repl_iter con n st = Some (repl_loop con st) \<and> fst (repl_loop con st) \<noteq> Running"
proof (induction n arbitrary: st)
  case 0
  then show ?case by simp
next
  case (Suc n)
  obtain s st' where step: "repl_step con st = (s, st')" by (cases "repl_step con st")
  show ?case
  proof (cases "s = Running")
    case True
    then have "length (stdin st') < n"
      using repl_step_running_stdin [of con st st'] step Suc.prems by simp
    with Suc.IH [of st'] True step show ?thesis by (simp add: repl_loop_unfold [of con st])
  next
    case False
    with step show ?thesis by (simp add: repl_loop_unfold [of con st])
  qed
qed

theorem repl_iter_enough_fuel_witness:
  "length (stdin \<lparr>stdin = [''1 + 1'', ''exit''], stdout = []\<rparr>) < 3 \<and>
   repl_iter Patched 3 \<lparr>stdin = [''1 + 1'', ''exit''], stdout = []\<rparr> =
     Some (repl_loop Patched \<lparr>stdin = [''1 + 1'', ''exit''], stdout = []\<rparr>) \<and>
   fst (repl_loop Patched \<lparr>stdin = [''1 + 1'', ''exit''], stdout = []\<rparr>) \<noteq> Running"
proof -
  have l: "length (stdin \<lparr>stdin = [''1 + 1'', ''exit''], stdout = []\<rparr>) < (3 :: nat)" by simp
  show ?thesis using repl_iter_enough_fuel [OF l] l by blast
qed

end
