(* ===== verification/Tests.thy ===== *)
theory Tests
  imports Calculator
begin

text \<open>
  The repository's test suites as executable predicates: the parametrised
  tables of src/tests/test_operations.py with their comparison
  \<open>assert_numeric_equal\<close> (Python's \<open>round(x, 1)\<close> and \<open>==\<close> on numbers), the
  \<open>pytest.raises(ValueError, match=...)\<close> check of the division-by-zero cases,
  and the harness \<open>run_calculator_with_input\<close> of src/tests/test_calculator.py,
  which runs \<open>calculator()\<close> on the monkeypatched console (\<open>input\<close> replaced by
  \<open>lambda _: next(input_iterator)\<close>, so no prompt is written) and searches the
  captured text. A test passes when its predicate is \<open>True\<close>: no exception
  escapes and every assertion holds. A float literal of a table denotes the
  double nearest to the decimal it spells, as the parser of Python source gives
  it; \<open>round(x, 1)\<close> rounds the exact value of the double to one decimal, ties
  to even (\<open>round_half_even\<close> of Py_Double), and returns the double nearest to it.
\<close>

section \<open>Python's round and == on numbers\<close>

text \<open>
  \<open>round(x, 1)\<close>: an \<open>int\<close> is returned unchanged; a finite \<open>float\<close> is rounded
  to one decimal, keeping its sign when the result is zero; infinities and NaN
  are returned unchanged (CPython's \<open>float___round___impl\<close>).
\<close>

fun py_round1 :: "pynum \<Rightarrow> pynum" where
  "py_round1 (PInt i) = PInt i"
| "py_round1 (PFloat x) =
     PFloat (case fval x of
               Some q \<Rightarrow> round_fin (fsign x) (of_int (round_half_even (10 * q)) / 10)
             | None \<Rightarrow> x)"

text \<open>\<open>==\<close> on numbers: exact comparison of the values, an \<open>int\<close> against a \<open>float\<close> included.\<close>

fun py_eq :: "pynum \<Rightarrow> pynum \<Rightarrow> bool" where
  "py_eq (PInt i) (PInt j) = (i = j)"
| "py_eq (PInt i) (PFloat y) = (fval y = Some (of_int i))"
| "py_eq (PFloat x) (PInt j) = (fval x = Some (of_int j))"
| "py_eq (PFloat x) (PFloat y) = feq x y"

fun is_float :: "pynum \<Rightarrow> bool" where
  "is_float (PInt _) = False"
| "is_float (PFloat _) = True"

text \<open>\<open>assert_numeric_equal\<close> (test_operations.py, lines 12-17).\<close>

definition assert_numeric_equal :: "pynum \<Rightarrow> pynum \<Rightarrow> bool" where
  "assert_numeric_equal result expected =
     (if is_float result \<or> is_float expected
      then py_eq (py_round1 result) (py_round1 expected)
      else py_eq result expected)"

section \<open>test_operations.py\<close>

abbreviation flt :: "rat \<Rightarrow> pynum" where
  "flt q \<equiv> PFloat (Fin (round_double q))"

definition addition_params :: "(pynum \<times> pynum \<times> pynum) list" where
  "addition_params =
     [(PInt 5, PInt 5, PInt 10), (PInt (-3), PInt (-4), PInt (-7)), (PInt (-8), PInt 12, PInt 4),
      (PInt 0, PInt 0, PInt 0), (flt (12/10), flt (38/10), flt 5), (flt (-4), flt (-25/10), flt (-65/10)),
      (flt (-32/10), flt 4, flt (8/10))]"

definition subtraction_params :: "(pynum \<times> pynum \<times> pynum) list" where
  "subtraction_params =
     [(PInt 2, PInt 2, PInt 0), (PInt (-3), PInt (-1), PInt (-2)), (PInt (-8), PInt 3, PInt (-11)),
      (PInt 0, PInt 0, PInt 0), (flt (25/10), flt (15/10), flt 1), (flt (-3), flt (-2), flt (-1)),
      (flt (-5), flt 3, flt (-8))]"

definition multiplication_params :: "(pynum \<times> pynum \<times> pynum) list" where
  "multiplication_params =
     [(PInt 3, PInt 3, PInt 9), (PInt (-2), PInt (-2), PInt 4), (PInt (-4), PInt 3, PInt (-12)),
      (PInt 0, PInt 0, PInt 0), (flt 2, flt 3, flt 6), (flt (-1), flt (-3), flt 3),
      (flt (-3), flt 8, flt (-24))]"

definition division_params :: "(pynum \<times> pynum \<times> pynum) list" where
  "division_params =
     [(PInt 4, PInt 2, PInt 2), (PInt (-4), PInt (-2), PInt 2), (PInt (-8), PInt 2, PInt (-4)),
      (flt 3, flt 3, flt 1), (flt (-9), flt (-3), flt 3), (flt (-12), flt 4, flt (-3))]"

definition division_by_zero_params :: "(pynum \<times> pynum) list" where
  "division_by_zero_params =
     [(PInt 8, PInt 0), (PInt (-3), PInt 0), (flt 5, PInt 0), (flt (-35/10), PInt 0)]"

text \<open>One run of a parametrised test: the method returns and the assertion holds.\<close>

definition test_binop ::
  "(pynum \<Rightarrow> pynum \<Rightarrow> pynum py_result) \<Rightarrow> pynum \<times> pynum \<times> pynum \<Rightarrow> bool" where
  "test_binop f p =
     (case p of (a, b, expected) \<Rightarrow>
        (case f a b of Inr r \<Rightarrow> assert_numeric_equal r expected | Inl _ \<Rightarrow> False))"

definition test_addition :: "pynum \<times> pynum \<times> pynum \<Rightarrow> bool" where
  "test_addition = test_binop addition"

definition test_subtraction :: "pynum \<times> pynum \<times> pynum \<Rightarrow> bool" where
  "test_subtraction = test_binop subtraction"

definition test_multiplication :: "pynum \<times> pynum \<times> pynum \<Rightarrow> bool" where
  "test_multiplication = test_binop multiplication"

definition test_division :: "pynum \<times> pynum \<times> pynum \<Rightarrow> bool" where
  "test_division = test_binop division"

text \<open>
  \<open>re.search\<close> for a pattern whose only metacharacter is \<open>.\<close> (any character
  but a newline), as in the \<open>match=\<close> argument of the division-by-zero test.
\<close>

fun re_match_prefix :: "string \<Rightarrow> string \<Rightarrow> bool" where
  "re_match_prefix [] s = True"
| "re_match_prefix (p # ps) [] = False"
| "re_match_prefix (p # ps) (c # cs) =
     ((if p = CHR ''.'' then c \<noteq> CHR ''\<newline>'' else p = c) \<and> re_match_prefix ps cs)"

fun re_search :: "string \<Rightarrow> string \<Rightarrow> bool" where
  "re_search p [] = re_match_prefix p []"
| "re_search p (c # cs) = (re_match_prefix p (c # cs) \<or> re_search p cs)"

text \<open>\<open>test_division_by_zero\<close>: the call raises a \<open>ValueError\<close> whose text matches.\<close>

definition test_division_by_zero :: "pynum \<times> pynum \<Rightarrow> bool" where
  "test_division_by_zero p =
     (case p of (a, b) \<Rightarrow>
        (case division a b of
           Inl (ValueError v) \<Rightarrow> re_search ''Division by zero is not allowed.'' (value_error_text v)
         | _ \<Rightarrow> False))"

section \<open>test_calculator.py\<close>

text \<open>
  \<open>run_calculator_with_input\<close>: the text written to the captured \<open>stdout\<close>, or
  the exception that escapes \<open>calculator()\<close> (then the test fails).
\<close>

definition run_calculator_with_input :: "string list \<Rightarrow> string py_result" where
  "run_calculator_with_input inputs =
     (case calculator Patched inputs of
        (Raised e, _) \<Rightarrow> Inl e
      | (_, out) \<Rightarrow> Inr (concat out))"

definition output_contains :: "string list \<Rightarrow> string \<Rightarrow> bool" where
  "output_contains inputs s =
     (case run_calculator_with_input inputs of Inr out \<Rightarrow> sublist s out | Inl _ \<Rightarrow> False)"

definition test_calculator_addition :: bool where
  "test_calculator_addition = output_contains [''3 + 3'', ''exit''] ''Result: 6.0''"

definition test_calculator_subtraction :: bool where
  "test_calculator_subtraction = output_contains [''5 - 3'', ''exit''] ''Result: 2.0''"

definition test_calculator_multiplication :: bool where
  "test_calculator_multiplication = output_contains [''4 * 3'', ''exit''] ''Result: 12.0''"

definition test_calculator_division :: bool where
  "test_calculator_division = output_contains [''30 / 10'', ''exit''] ''Result: 3.0''"

definition test_invalid_operator :: bool where
  "test_invalid_operator =
     output_contains [''8 % 2'', ''exit''] ''Invalid operator. Please use one of these: +, -, *, or /''"

definition test_invalid_input_format :: bool where
  "test_invalid_input_format =
     output_contains [''five + one'', ''exit'']
       ''Invalid input. Format: <number> <operator> <number>. Include spaces between each component.''"

definition test_calculator_division_by_zero :: bool where
  "test_calculator_division_by_zero =
     output_contains [''3 / 0'', ''exit''] ''Division by zero is not allowed.''"

lemmas tests_eval [model_eval] =
  assert_numeric_equal_def test_binop_def test_addition_def
  test_subtraction_def test_multiplication_def test_division_def test_division_by_zero_def

section \<open>The harness on one line\<close>

text \<open>
  On the patched console a session of one non-exit line followed by \<open>exit\<close>
  writes the banner, what the line alone prints, and the exit notice.
\<close>

lemma run_calculator_single:
  assumes "\<not> is_exit (py_strip l)"
  shows "run_calculator_with_input [l, ''exit''] =
    Inr (banner_msg @ ''\<newline>'' @ concat (iteration_writes l) @ exit_msg @ ''\<newline>'')"
proof -
  have "is_exit (py_strip ''exit'')" by (simp add: model_eval)
  then show ?thesis using assms
    by (simp add: run_calculator_with_input_def calculator_def repl_loop_stdin py_print_def
        prompt_writes_def iteration_writes_exit)
qed

lemma output_contains_line:
  assumes "\<not> is_exit (py_strip l)" and "calc_iteration l = ([m], c)"
  shows "output_contains [l, ''exit''] m"
proof -
  have "sublist m ((banner_msg @ ''\<newline>'') @ m @ (''\<newline>'' @ exit_msg @ ''\<newline>''))"
    by (rule sublist_appendI)
  then show ?thesis using assms
    by (simp add: output_contains_def run_calculator_single iteration_writes_def)
qed

text \<open>What one iteration prints on each line of the specification's scenarios.\<close>

lemma scenario_iterations:
  "calc_iteration ''3 + 3'' = ([''Result: 6.0''], Inr Continue)"
  "calc_iteration ''5 - 3'' = ([''Result: 2.0''], Inr Continue)"
  "calc_iteration ''4 * 3'' = ([''Result: 12.0''], Inr Continue)"
  "calc_iteration ''30 / 10'' = ([''Result: 3.0''], Inr Continue)"
  "calc_iteration ''8 % 2'' = ([''Invalid operator. Please use one of these: +, -, *, or /''],
     Inr Continue)"
  "calc_iteration ''five + one'' = ([''Invalid input. Format: <number> <operator> <number>. Include spaces between each component.''],
     Inr Continue)"
  "calc_iteration ''3 / 0'' = ([''Division by zero is not allowed.''], Inr Continue)"
  by (simp_all add: model_eval rat_eval)

lemma scenario_not_exit:
  "\<not> is_exit (py_strip ''3 + 3'')" "\<not> is_exit (py_strip ''5 - 3'')"
  "\<not> is_exit (py_strip ''4 * 3'')" "\<not> is_exit (py_strip ''30 / 10'')"
  "\<not> is_exit (py_strip ''8 % 2'')" "\<not> is_exit (py_strip ''five + one'')"
  "\<not> is_exit (py_strip ''3 / 0'')"
  by (simp_all add: model_eval)

section \<open>The suites pass\<close>

text \<open>
  Every parametrised case of test_operations.py passes: the 7 addition,
  7 subtraction, 7 multiplication and 6 division cases return a value that
  \<open>assert_numeric_equal\<close> accepts, and the 4 division-by-zero cases raise a
  \<open>ValueError\<close> whose text matches \<open>"Division by zero is not allowed."\<close>.
\<close>

theorem test_operations_pass:
  "list_all test_addition addition_params \<and> list_all test_subtraction subtraction_params \<and>
   list_all test_multiplication multiplication_params \<and> list_all test_division division_params \<and>
   list_all test_division_by_zero division_by_zero_params"
proof (intro conjI)
  show "list_all test_addition addition_params"
    by (simp add: model_eval rat_eval addition_params_def)
  show "list_all test_subtraction subtraction_params"
    by (simp add: model_eval rat_eval subtraction_params_def)
  show "list_all test_multiplication multiplication_params"
    by (simp add: model_eval rat_eval multiplication_params_def)
  show "list_all test_division division_params"
    by (simp add: model_eval rat_eval division_params_def)
  show "list_all test_division_by_zero division_by_zero_params"
    by (simp add: model_eval rat_eval division_by_zero_params_def)
qed

text \<open>
  The seven tests of test_calculator.py pass: each session of one line and
  \<open>exit\<close> on the patched console returns normally and its captured output
  contains the expected text.
\<close>

theorem test_calculator_pass:
  "test_calculator_addition \<and> test_calculator_subtraction \<and> test_calculator_multiplication \<and>
   test_calculator_division \<and> test_invalid_operator \<and> test_invalid_input_format \<and>
   test_calculator_division_by_zero"
  unfolding test_calculator_addition_def test_calculator_subtraction_def
    test_calculator_multiplication_def test_calculator_division_def test_invalid_operator_def
    test_invalid_input_format_def test_calculator_division_by_zero_def
  by (intro conjI; rule output_contains_line, rule scenario_not_exit, rule scenario_iterations)

end
