(* ===== verification/Number_Text.thy ===== *)
theory Number_Text
  imports Py_Str Py_Repr
begin

text \<open>
  The text of a number read back: the decimal digits that \<open>str\<close> and \<open>repr\<close>
  print (Py_Repr) are accepted by \<open>float()\<close> (Py_Str) and denote the value they
  were printed from. For integral values the text is the digits and \<open>.0\<close>; in
  general each of the three notations of \<open>format_repr\<close> parses to the decimal
  \<open>repr\<close> chose, which rounds back to the double, so \<open>float(repr(x))\<close> is
  \<open>x\<close> for every float.
\<close>

text \<open>
  \<open>dval\<close> is the value of a digit string, most significant digit first, and
  \<open>digits_end\<close> says that a suffix can not continue a run of digits.
\<close>

abbreviation dval :: "string \<Rightarrow> nat" where
  "dval ds \<equiv> foldl (\<lambda>a c. 10 * a + digit_val c) 0 ds"

abbreviation digits_end :: "string \<Rightarrow> bool" where
  "digits_end rest \<equiv> (case rest of [] \<Rightarrow> True | c # _ \<Rightarrow> \<not> is_digit c \<and> c \<noteq> CHR ''_'')"

section \<open>Digits as float() reads them\<close>

lemma digit_char_digit:
  assumes "d < 10" shows "is_digit (digit_char d)" "digit_val (digit_char d) = d"
  using digit_char_of_char [OF assms] assms by (simp_all add: is_digit_def digit_val_def)

lemma nat_digits_digits: "\<forall>c \<in> set (nat_digits n). is_digit c"
proof (induction n rule: nat_digits.induct)
  case (1 n)
  then show ?case
    by (cases "n < 10") (simp_all add: nat_digits.simps [of n] digit_char_digit)
qed

lemma nat_digits_Cons: "\<exists>c cs. nat_digits n = c # cs"
  using length_nat_digits [of n] by (cases "nat_digits n") simp_all

text \<open>The value of a digit string, most significant digit first.\<close>

lemma foldl_nat_digits:
  "foldl (\<lambda>a c. 10 * a + digit_val c) v (nat_digits n) = v * 10 ^ length (nat_digits n) + n"
proof (induction n arbitrary: v rule: nat_digits.induct)
  case (1 n)
  show ?case
  proof (cases "n < 10")
    case True
    then show ?thesis by (simp add: nat_digits.simps [of n] digit_char_digit)
  next
    case False
    then have "nat_digits n = nat_digits (n div 10) @ [digit_char (n mod 10)]"
      by (simp add: nat_digits.simps [of n])
    with "1.IH" [OF False] show ?thesis
      by (simp add: digit_char_digit algebra_simps)
  qed
qed

text \<open>\<open>digits_rest\<close> reads a run of digits up to a character that can not continue it.\<close>

lemma digits_rest_digits:
  assumes "\<forall>c \<in> set ds. is_digit c"
    and "case rest of [] \<Rightarrow> True | c # _ \<Rightarrow> \<not> is_digit c \<and> c \<noteq> CHR ''_''"
  shows "digits_rest v k (ds @ rest) =
           (foldl (\<lambda>a c. 10 * a + digit_val c) v ds, k + length ds, rest)"
  using assms(1)
proof (induction ds arbitrary: v k)
  case Nil
  with assms(2) show ?case by (cases rest) simp_all
next
  case (Cons c ds)
  then show ?case by simp
qed

lemma digitpart_nat_digits:
  assumes "case rest of [] \<Rightarrow> True | c # _ \<Rightarrow> \<not> is_digit c \<and> c \<noteq> CHR ''_''"
  shows "digitpart (nat_digits n @ rest) = Some (n, length (nat_digits n), rest)"
proof -
  obtain c cs where c: "nat_digits n = c # cs" using nat_digits_Cons by blast
  have d: "is_digit c" "\<forall>c \<in> set cs. is_digit c" using nat_digits_digits [of n] c by simp_all
  have "digits_rest (digit_val c) 1 (cs @ rest) =
      (foldl (\<lambda>a c. 10 * a + digit_val c) 0 (c # cs), 1 + length cs, rest)"
    using digits_rest_digits [OF d(2) assms] by simp
  then show ?thesis using c d foldl_nat_digits [of 0 n] by (simp add: digitpart_def)
qed

section \<open>float() of the text of an integer\<close>

lemma is_digit_not_space: "is_digit c \<Longrightarrow> \<not> py_isspace c"
  by (auto simp: is_digit_def py_isspace_def)

lemma is_digit_lower: "is_digit c \<Longrightarrow> py_lower_char c = c"
  by (simp add: is_digit_def py_lower_char_def)

lemma py_strip_no_space: "\<forall>c \<in> set s. \<not> py_isspace c \<Longrightarrow> py_strip s = s"
proof -
  have d: "dropWhile py_isspace t = t" if "\<forall>c \<in> set t. \<not> py_isspace c" for t
    using that by (cases t) simp_all
  assume "\<forall>c \<in> set s. \<not> py_isspace c"
  then show ?thesis by (simp add: py_strip_def d)
qed

text \<open>The number after an optional minus sign: no sign, \<open>inf\<close> or \<open>nan\<close> is seen in it.\<close>

lemma parse_float_body_digits:
  assumes "parse_number (nat_digits n @ rest) = Some (m, k, [])"
  shows "parse_float_body ((if neg then ''-'' else []) @ nat_digits n @ rest) =
           Some (dec_float neg m (- int k))"
proof -
  obtain c cs where c: "nat_digits n = c # cs" using nat_digits_Cons by blast
  have d: "is_digit c" using nat_digits_digits [of n] c by simp
  then have sg: "c \<noteq> CHR ''-''" "c \<noteq> CHR ''+''" by (auto simp: is_digit_def)
  have ps: "parse_sign ((if neg then ''-'' else []) @ nat_digits n @ rest) = (neg, nat_digits n @ rest)"
    using c sg by (simp add: parse_sign_def)
  have "hd (map py_lower_char (nat_digits n @ rest)) = c" using c d by (simp add: is_digit_lower)
  then have ni: "map py_lower_char (nat_digits n @ rest) \<noteq> ''inf''"
       "map py_lower_char (nat_digits n @ rest) \<noteq> ''infinity''"
       "map py_lower_char (nat_digits n @ rest) \<noteq> ''nan''"
    using d by (auto simp: is_digit_def)
  show ?thesis using ps ni assms by (simp add: parse_float_body_def parse_exponent_def)
qed

lemma parse_number_int: "parse_number (nat_digits n) = Some (n, 0, [])"
  using digitpart_nat_digits [of "[]" n] by (simp add: parse_number_def)

lemma parse_number_point0: "parse_number (nat_digits n @ ''.0'') = Some (10 * n, 1, [])"
proof -
  have "digitpart (nat_digits n @ ''.0'') = Some (n, length (nat_digits n), ''.0'')"
    by (rule digitpart_nat_digits) (simp add: is_digit_def)
  moreover have "digitpart ''0'' = Some (0, 1, [])"
    by (simp add: digitpart_def is_digit_def digit_val_def)
  ultimately show ?thesis by (simp add: parse_number_def)
qed

text \<open>The value a signed digit string denotes, delivered as a double.\<close>

lemma int_str_split:
  "int_str i = (if i < 0 then ''-'' else []) @ nat_digits (nat \<bar>i\<bar>)"
  by (simp add: int_str_def)

lemma signed_nat_abs: "(if i < 0 then -1 else 1) * (of_nat (nat \<bar>i\<bar>) :: rat) = of_int i"
  by simp

lemma dec_float_int:
  assumes "\<bar>i\<bar> \<le> 2 ^ 53"
  shows "dec_float (i < 0) (nat \<bar>i\<bar>) 0 = Fin (of_int i)"
    and "dec_float (i < 0) (10 * nat \<bar>i\<bar>) (- 1) = Fin (of_int i)"
proof -
  have "dec_float (i < 0) (nat \<bar>i\<bar>) 0 =
      round_fin (i < 0) ((if i < 0 then -1 else 1) * of_nat (nat \<bar>i\<bar>))"
    by (simp add: dec_float_def pow10_def)
  also have "\<dots> = Fin (of_int i)" by (simp only: signed_nat_abs) (use round_fin_int [OF assms, of "i < 0"] in \<open>simp add: mk_zero_def\<close>)
  finally show "dec_float (i < 0) (nat \<bar>i\<bar>) 0 = Fin (of_int i)" .
  have "dec_float (i < 0) (10 * nat \<bar>i\<bar>) (- 1) =
      round_fin (i < 0) ((if i < 0 then -1 else 1) * of_nat (nat \<bar>i\<bar>))"
    by (simp add: dec_float_def pow10_def)
  also have "\<dots> = Fin (of_int i)" by (simp only: signed_nat_abs) (use round_fin_int [OF assms, of "i < 0"] in \<open>simp add: mk_zero_def\<close>)
  finally show "dec_float (i < 0) (10 * nat \<bar>i\<bar>) (- 1) = Fin (of_int i)" .
qed

lemma int_str_no_space: "\<forall>c \<in> set (int_str i). \<not> py_isspace c"
proof -
  have "\<forall>c \<in> set (nat_digits (nat \<bar>i\<bar>)). \<not> py_isspace c"
    using nat_digits_digits is_digit_not_space by blast
  moreover have "\<not> py_isspace CHR ''-''" by (simp add: py_isspace_def)
  ultimately show ?thesis by (auto simp: int_str_split)
qed

lemma int_str_Cons: "\<exists>c cs. int_str i = c # cs"
  using nat_digits_Cons [of "nat \<bar>i\<bar>"] by (auto simp: int_str_split)

lemma py_float_int_str:
  assumes "\<bar>i\<bar> \<le> 2 ^ 53"
  shows "py_float (int_str i) = Inr (Fin (of_int i))"
proof -
  have "parse_float_body (int_str i) = Some (dec_float (i < 0) (nat \<bar>i\<bar>) 0)"
    using parse_float_body_digits [of "nat \<bar>i\<bar>" "[]" "nat \<bar>i\<bar>" 0 "i < 0"]
      parse_number_int [of "nat \<bar>i\<bar>"]
    by (simp add: int_str_split)
  then show ?thesis
    using int_str_no_space by (simp add: py_float_def py_strip_no_space dec_float_int [OF assms])
qed

lemma py_float_int_str_point0:
  assumes "\<bar>i\<bar> \<le> 2 ^ 53"
  shows "py_float (int_str i @ ''.0'') = Inr (Fin (of_int i))"
proof -
  have "\<not> py_isspace CHR ''.''" "\<not> py_isspace CHR ''0''" by (simp_all add: py_isspace_def)
  then have sp: "\<forall>c \<in> set (int_str i @ ''.0''). \<not> py_isspace c"
    using int_str_no_space by auto
  have "parse_float_body (int_str i @ ''.0'') = Some (dec_float (i < 0) (10 * nat \<bar>i\<bar>) (- 1))"
    using parse_float_body_digits [OF parse_number_point0, of "i < 0" "nat \<bar>i\<bar>"]
    by (simp add: int_str_split)
  then show ?thesis
    using sp by (simp add: py_float_def py_strip_no_space dec_float_int [OF assms])
qed

section \<open>Round trip\<close>

text \<open>
  C13: round trip of the printed result. For every integral float up to
  \<open>2 ^ 53\<close> in magnitude (the range where every integer is a double; \<open>0.0\<close>
  included), the text
  \<open>repr\<close> prints, the digits of the integer followed by \<open>.0\<close>, is read back by
  \<open>float()\<close> as the same float.
\<close>

theorem float_repr_roundtrip:
  assumes "\<bar>i\<bar> \<le> 2 ^ 53"
  shows "float_repr (Fin (of_int i)) = int_str i @ ''.0'' \<and>
         py_float (float_repr (Fin (of_int i))) = Inr (Fin (of_int i))"
  using float_repr_of_int [OF assms]
    py_float_int_str_point0 [OF assms]
  by simp

theorem float_repr_roundtrip_witness:
  "\<bar>-1200 :: int\<bar> \<le> 2 ^ 53 \<and> int_str (-1200) = ''-1200'' \<and>
   float_repr (Fin (of_int (-1200))) = int_str (-1200) @ ''.0'' \<and>
   py_float (float_repr (Fin (of_int (-1200)))) = Inr (Fin (of_int (-1200)))"
proof -
  have a: "\<bar>-1200 :: int\<bar> \<le> 2 ^ 53" by simp
  have s: "int_str (-1200) = ''-1200''" by (simp add: model_eval)
  show ?thesis using float_repr_roundtrip [OF a] a s by blast
qed


section \<open>float() of every repr\<close>

text \<open>
  The value of a digit string, \<open>dval\<close>, and the parser on the shapes \<open>repr\<close>
  prints: an integer part, a point and a fraction, and an exponent \<open>e+XX\<close> or
  \<open>e-XX\<close>. Each of the three notations of \<open>format_repr\<close> is read back as its
  digits times the power of ten it stands for.
\<close>

lemma foldl_digits_shift:
  "foldl (\<lambda>a c. 10 * a + digit_val c) v ds = v * 10 ^ length ds + dval ds"
proof (induction ds arbitrary: v)
  case Nil
  then show ?case by simp
next
  case (Cons c cs)
  have "foldl (\<lambda>a c. 10 * a + digit_val c) (10 * v + digit_val c) cs =
      (10 * v + digit_val c) * 10 ^ length cs + dval cs" by (rule Cons.IH)
  moreover have "foldl (\<lambda>a c. 10 * a + digit_val c) (digit_val c) cs =
      digit_val c * 10 ^ length cs + dval cs" by (rule Cons.IH)
  ultimately show ?case by (simp add: algebra_simps)
qed

lemma dval_append: "dval (xs @ ys) = dval xs * 10 ^ length ys + dval ys"
  unfolding foldl_append by (rule foldl_digits_shift)

lemma digit_val_0 [simp]: "digit_val CHR ''0'' = 0"
  by (simp add: digit_val_def)

lemma dval_zeros [simp]: "dval (replicate n (CHR ''0'') @ ys) = dval ys"
  by (induction n) (simp_all del: foldl_append)

lemma dval_replicate0 [simp]: "dval (replicate n (CHR ''0'')) = 0"
  using dval_zeros [of n "[]"] by simp

lemma dval_nat_digits [simp]: "dval (nat_digits n) = n"
  using foldl_nat_digits [of 0 n] by simp

lemma digitpart_digits:
  assumes "ds \<noteq> []" "\<forall>c \<in> set ds. is_digit c" "digits_end rest"
  shows "digitpart (ds @ rest) = Some (dval ds, length ds, rest)"
proof -
  obtain c cs where c: "ds = c # cs" using assms(1) by (cases ds) auto
  have d: "is_digit c" "\<forall>c \<in> set cs. is_digit c" using assms(2) c by simp_all
  have "digits_rest (digit_val c) 1 (cs @ rest) =
      (foldl (\<lambda>a c. 10 * a + digit_val c) (digit_val c) cs, 1 + length cs, rest)"
    using digits_rest_digits [OF d(2)] assms(3) by simp
  then show ?thesis using c d by (simp add: digitpart_def)
qed

lemma not_digit_point_e [simp]: "\<not> is_digit CHR ''.''" "\<not> is_digit CHR ''e''"
  by (simp_all add: is_digit_def)

lemma parse_number_point:
  assumes "ip \<noteq> []" "\<forall>c \<in> set ip. is_digit c" "fp \<noteq> []" "\<forall>c \<in> set fp. is_digit c"
    and "digits_end rest"
  shows "parse_number (ip @ CHR ''.'' # fp @ rest) = Some (dval (ip @ fp), length fp, rest)"
proof -
  have "digitpart (ip @ CHR ''.'' # fp @ rest) = Some (dval ip, length ip, CHR ''.'' # fp @ rest)"
    using digitpart_digits [OF assms(1,2), of "CHR ''.'' # fp @ rest"] by simp
  moreover have "digitpart (fp @ rest) = Some (dval fp, length fp, rest)"
    by (rule digitpart_digits [OF assms(3-5)])
  ultimately show ?thesis by (simp add: parse_number_def dval_append del: foldl_append)
qed

lemma parse_number_exp:
  assumes "ip \<noteq> []" "\<forall>c \<in> set ip. is_digit c"
  shows "parse_number (ip @ CHR ''e'' # rest) = Some (dval ip, 0, CHR ''e'' # rest)"
proof -
  have "digitpart (ip @ CHR ''e'' # rest) = Some (dval ip, length ip, CHR ''e'' # rest)"
    using digitpart_digits [OF assms, of "CHR ''e'' # rest"] by simp
  then show ?thesis by (simp add: parse_number_def)
qed

lemma parse_exponent_exp_str: "parse_exponent (CHR ''e'' # exp_str x) = Some x"
proof -
  let ?ds = "nat_digits (nat \<bar>x\<bar>)"
  let ?t = "if length ?ds < 2 then CHR ''0'' # ?ds else ?ds"
  have t1: "?t \<noteq> []" using nat_digits_Cons [of "nat \<bar>x\<bar>"] by auto
  have t2: "\<forall>c \<in> set ?t. is_digit c" using nat_digits_digits [of "nat \<bar>x\<bar>"] by (simp add: is_digit_def)
  have t3: "dval ?t = nat \<bar>x\<bar>" by simp
  note t = t1 t2 t3
  have dp: "digitpart ?t = Some (nat \<bar>x\<bar>, length ?t, [])"
    using digitpart_digits [OF t(1,2), of "[]"] t(3) by simp
  have es: "exp_str x = (if x < 0 then CHR ''-'' else CHR ''+'') # ?t"
    by (simp add: exp_str_def Let_def)
  have ps: "parse_sign ((if x < 0 then CHR ''-'' else CHR ''+'') # ?t) = (x < 0, ?t)"
    by (simp add: parse_sign_def)
  have "parse_exponent (CHR ''e'' # exp_str x) = Some (if x < 0 then - int (nat \<bar>x\<bar>) else int (nat \<bar>x\<bar>))"
    unfolding es parse_exponent_def
    by (simp only: list.case simp_thms if_True Let_def ps prod.case dp option.case)
  then show ?thesis by simp
qed

lemma parse_float_body_num:
  assumes t: "t = c # cs" "is_digit c"
    and n: "parse_number t = Some (m, k, r)" and x: "parse_exponent r = Some x"
  shows "parse_float_body ((if neg then ''-'' else []) @ t) = Some (dec_float neg m (x - int k))"
proof -
  have sg: "c \<noteq> CHR ''-''" "c \<noteq> CHR ''+''" using t(2) by (auto simp: is_digit_def)
  have ps: "parse_sign ((if neg then ''-'' else []) @ t) = (neg, t)"
    using t(1) sg by (simp add: parse_sign_def)
  have "hd (map py_lower_char t) = c" using t by (simp add: is_digit_lower)
  then have ni: "map py_lower_char t \<noteq> ''inf''" "map py_lower_char t \<noteq> ''infinity''"
       "map py_lower_char t \<noteq> ''nan''"
    using t(2) by (auto simp: is_digit_def)
  show ?thesis using ps ni n x by (simp add: parse_float_body_def)
qed

lemma pow10_pow10r: "pow10 = pow10r"
  by (rule ext) (simp add: pow10_def pow10r_def)

lemma pow10r_shift: "of_nat (a * 10 ^ j) * pow10r x = of_nat a * pow10r (x + int j)"
proof -
  have "pow10r (int j) = 10 ^ j" by (simp add: pow10r_def)
  then show ?thesis by (simp add: pow10r_add)
qed

lemma digits_take_drop:
  assumes "\<forall>c \<in> set D. is_digit c"
  shows "\<forall>c \<in> set (take n (D @ replicate n (CHR ''0''))). is_digit c" "\<forall>c \<in> set (drop n D). is_digit c"
  using assms by (auto simp: is_digit_def dest!: in_set_takeD in_set_dropD)

lemma format_repr_value:
  assumes D: "D \<noteq> []" "\<forall>c \<in> set D. is_digit c"
  shows "\<exists>m x. parse_float_body ((if neg then ''-'' else []) @ format_repr D E) = Some (dec_float neg m x)
           \<and> of_nat m * pow10r x = of_nat (dval D) * pow10r (E - int (length D) + 1)"
proof -
  have z: "is_digit CHR ''0''" by (simp add: is_digit_def)
  consider (pos) "- 4 \<le> E" "E < 16" "0 \<le> E" | (neg) "- 4 \<le> E" "E < 16" "E < 0"
    | (ex) "\<not> (- 4 \<le> E \<and> E < 16)" by linarith
  then show ?thesis
  proof cases
    case pos
    let ?n = "nat E + 1"
    let ?ip = "take ?n (D @ replicate ?n (CHR ''0''))" and ?fp = "drop ?n D"
    let ?fq = "if ?fp = [] then ''0'' else ?fp"
    have tx: "format_repr D E = ?ip @ CHR ''.'' # ?fq @ []" using pos by (simp add: format_repr_def)
    have ip1: "?ip \<noteq> []" using D(1) by simp
    have ip: "?ip \<noteq> []" "\<forall>c \<in> set ?ip. is_digit c" using ip1 digits_take_drop(1) [OF D(2)] by blast+
    have fp: "?fq \<noteq> []" "\<forall>c \<in> set ?fq. is_digit c" using digits_take_drop(2) [OF D(2)] z by auto
    obtain c cs where c: "?ip = c # cs" using ip(1) by (cases ?ip) auto
    have cd: "is_digit c" using ip(2) c by (metis list.set_intros(1))
    have pn: "parse_number (?ip @ CHR ''.'' # ?fq @ []) = Some (dval (?ip @ ?fq), length ?fq, [])"
      by (rule parse_number_point [OF ip fp]) simp
    have "parse_float_body ((if neg then ''-'' else []) @ format_repr D E) =
        Some (dec_float neg (dval (?ip @ ?fq)) (0 - int (length ?fq)))"
      unfolding tx using parse_float_body_num [OF _ cd pn, of "cs @ CHR ''.'' # ?fq @ []"] c
      by (simp add: parse_exponent_def)
    moreover have "of_nat (dval (?ip @ ?fq)) * pow10r (0 - int (length ?fq)) =
        of_nat (dval D) * pow10r (E - int (length D) + 1)"
    proof (cases "length D \<le> ?n")
      case True
      then have "?ip = D @ replicate (?n - length D) (CHR ''0'')" "?fp = []"
        by (simp_all add: take_append take_replicate del: replicate_Suc)
      then have "dval (?ip @ ?fq) = dval D * 10 ^ (?n - length D + 1)"
        by (simp add: dval_append power_add del: foldl_append)
      moreover have "0 - 1 + int (?n - length D + 1) = E - int (length D) + 1" using True pos by simp
      ultimately show ?thesis using \<open>?fp = []\<close> pow10r_shift [of "dval D" "?n - length D + 1" "0 - 1"]
        by (simp add: ac_simps del: foldl_append)
    next
      case False
      then have "?ip @ ?fp = D" "?fp \<noteq> []" by (simp_all add: take_append)
      then have "dval (?ip @ ?fq) = dval D" by simp
      moreover have "0 - int (length ?fp) = E - int (length D) + 1" using False pos by simp
      ultimately show ?thesis using \<open>?fp \<noteq> []\<close> by (simp add: algebra_simps)
    qed
    ultimately show ?thesis by blast
  next
    case neg
    let ?z = "replicate (nat (- E) - 1) (CHR ''0'') @ D"
    have tx: "format_repr D E = ''0'' @ CHR ''.'' # ?z @ []" using neg by (simp add: format_repr_def)
    have zd: "?z \<noteq> []" "\<forall>c \<in> set ?z. is_digit c" using D z by auto
    have pn: "parse_number (''0'' @ CHR ''.'' # ?z @ []) = Some (dval (''0'' @ ?z), length ?z, [])"
      by (rule parse_number_point [OF _ _ zd]) (simp_all add: z)
    have "parse_float_body ((if neg then ''-'' else []) @ format_repr D E) =
        Some (dec_float neg (dval (''0'' @ ?z)) (0 - int (length ?z)))"
      unfolding tx using parse_float_body_num [OF _ z pn, of "CHR ''.'' # ?z @ []"]
      by (simp add: parse_exponent_def)
    moreover have "dval (''0'' @ ?z) = dval D" by (simp del: foldl_append)
    moreover have "0 - int (length ?z) = E - int (length D) + 1" using neg by simp
    ultimately have "parse_float_body ((if neg then ''-'' else []) @ format_repr D E) =
        Some (dec_float neg (dval D) (E - int (length D) + 1))" by (simp add: algebra_simps)
    then show ?thesis by blast
  next
    case ex
    obtain d ds where d: "D = d # ds" using D(1) by (cases D) auto
    have dd: "is_digit d" "\<forall>c \<in> set ds. is_digit c" using D(2) d by simp_all
    have px: "parse_exponent (CHR ''e'' # exp_str E) = Some E" by (rule parse_exponent_exp_str)
    have nf: "(- 4 \<le> E \<and> E < 16) = False" using ex by simp
    show ?thesis
    proof (cases "ds = []")
      case True
      have tx: "format_repr D E = [d] @ CHR ''e'' # exp_str E" using d True by (simp only: format_repr_def nf if_False) simp
      have pn: "parse_number ([d] @ CHR ''e'' # exp_str E) = Some (dval [d], 0, CHR ''e'' # exp_str E)"
        by (rule parse_number_exp) (simp_all add: dd)
      have "parse_float_body ((if neg then ''-'' else []) @ ([d] @ CHR ''e'' # exp_str E)) =
          Some (dec_float neg (dval [d]) (E - int 0))"
        by (rule parse_float_body_num [OF _ dd(1) pn px]) simp
      moreover have "E - int 0 = E - int (length D) + 1" "dval [d] = dval D" using d True by simp_all
      ultimately have "parse_float_body ((if neg then ''-'' else []) @ format_repr D E) =
          Some (dec_float neg (dval D) (E - int (length D) + 1))" by (simp only: tx)
      then show ?thesis by blast
    next
      case False
      have tx: "format_repr D E = [d] @ CHR ''.'' # ds @ CHR ''e'' # exp_str E"
        using d False by (simp only: format_repr_def nf if_False) simp
      have pn: "parse_number ([d] @ CHR ''.'' # ds @ CHR ''e'' # exp_str E) =
          Some (dval ([d] @ ds), length ds, CHR ''e'' # exp_str E)"
        by (rule parse_number_point [OF _ _ False dd(2)]) (simp_all add: dd)
      have "parse_float_body ((if neg then ''-'' else []) @ ([d] @ CHR ''.'' # ds @ CHR ''e'' # exp_str E)) =
          Some (dec_float neg (dval ([d] @ ds)) (E - int (length ds)))"
        by (rule parse_float_body_num [OF _ dd(1) pn px]) simp
      moreover have "E - int (length ds) = E - int (length D) + 1" "dval ([d] @ ds) = dval D" using d by simp_all
      ultimately have "parse_float_body ((if neg then ''-'' else []) @ format_repr D E) =
          Some (dec_float neg (dval D) (E - int (length D) + 1))" by (simp only: tx)
      then show ?thesis by blast
    qed
  qed
qed

lemma format_repr_chars:
  assumes ne: "D \<noteq> []" and d: "\<forall>c \<in> set D. is_digit c"
  shows "\<forall>c \<in> set (format_repr D E). is_digit c \<or> c \<in> {CHR ''.'', CHR ''e'', CHR ''+'', CHR ''-''}"
proof -
  have z: "is_digit CHR ''0''" by (simp add: is_digit_def)
  have x: "\<forall>c \<in> set (exp_str E). is_digit c \<or> c \<in> {CHR ''+'', CHR ''-''}"
    using nat_digits_digits [of "nat \<bar>E\<bar>"] z by (auto simp: exp_str_def Let_def)
  consider (pos) "- 4 \<le> E" "E < 16" "0 \<le> E" | (neg) "- 4 \<le> E" "E < 16" "E < 0"
    | (ex) "\<not> (- 4 \<le> E \<and> E < 16)" by linarith
  then show ?thesis
  proof cases
    case pos
    let ?n = "nat E + 1"
    have "format_repr D E = take ?n (D @ replicate ?n (CHR ''0'')) @ CHR ''.'' #
        (if drop ?n D = [] then ''0'' else drop ?n D)"
      using pos by (simp add: format_repr_def)
    then show ?thesis using digits_take_drop [OF d, of ?n] z by auto
  next
    case neg
    have "format_repr D E = ''0'' @ CHR ''.'' # replicate (nat (- E) - 1) (CHR ''0'') @ D"
      using neg by (simp add: format_repr_def)
    then show ?thesis using d z by auto
  next
    case ex
    have nf: "(- 4 \<le> E \<and> E < 16) = False" using ex by simp
    have "format_repr D E = hd D # (if tl D = [] then [] else CHR ''.'' # tl D) @ CHR ''e'' # exp_str E"
      by (simp only: format_repr_def nf if_False) simp
    moreover have "\<forall>c \<in> set (tl D). is_digit c" using d by (cases D) simp_all
    moreover have "D \<noteq> [] \<Longrightarrow> is_digit (hd D)" using d by (cases D) simp_all
    ultimately show ?thesis using x ne by auto
  qed
qed

lemma format_repr_no_space:
  assumes "D \<noteq> []" "\<forall>c \<in> set D. is_digit c"
  shows "\<forall>c \<in> set ((if neg then ''-'' else []) @ format_repr D E). \<not> py_isspace c"
proof -
  have s: "\<not> py_isspace c" if "is_digit c \<or> c \<in> {CHR ''.'', CHR ''e'', CHR ''+'', CHR ''-''}" for c
  proof (cases "is_digit c")
    case True
    then show ?thesis by (rule is_digit_not_space)
  next
    case False
    then show ?thesis using that by (auto simp: py_isspace_def)
  qed
  then show ?thesis using format_repr_chars [OF assms] by auto
qed

lemma strip_zeros_digits:
  assumes "0 < c"
  obtains z where "nat_digits c = strip_zeros (nat_digits c) @ replicate z (CHR ''0'')"
    and "strip_zeros (nat_digits c) \<noteq> []" and "\<forall>x \<in> set (strip_zeros (nat_digits c)). is_digit x"
    and "c = dval (strip_zeros (nat_digits c)) * 10 ^ z"
proof -
  let ?D = "strip_zeros (nat_digits c)"
  obtain z where z: "nat_digits c = ?D @ replicate z (CHR ''0'')" using strip_zeros_prefix by blast
  have v: "c = dval ?D * 10 ^ z"
    using dval_nat_digits [of c] z dval_append [of ?D "replicate z (CHR ''0'')"] by simp
  then have "?D \<noteq> []" using assms by auto
  moreover have "\<forall>x \<in> set ?D. is_digit x" using nat_digits_digits [of c] z by (metis Un_iff set_append)
  ultimately show ?thesis using that z v by blast
qed

lemma round_fin_double:
  "v \<noteq> 0 \<Longrightarrow> round_double v = q \<Longrightarrow> \<bar>q\<bar> < ovf_bound \<Longrightarrow> q \<noteq> 0 \<Longrightarrow> round_fin z v = Fin q"
  by (simp add: round_fin_def Let_def)

lemma round_double_abs: "round_double q = q \<Longrightarrow> round_double \<bar>q\<bar> = \<bar>q\<bar>"
  by (cases "q < 0") (simp_all add: round_double_uminus)

lemma float_repr_double:
  assumes q: "round_double q = q" "\<bar>q\<bar> < ovf_bound" "q \<noteq> 0"
  shows "py_float (float_repr (Fin q)) = Inr (Fin q)"
proof -
  let ?a = "\<bar>q\<bar>" and ?neg = "q < 0"
  have a: "round_double ?a = ?a" "0 < ?a" using round_double_abs [OF q(1)] q(3) by simp_all
  obtain c s where rd: "repr_digits ?a = (strip_zeros (nat_digits c), s + int (length (nat_digits c)) - 1)"
    and c0: "0 < c" and cr: "round_double (of_nat c * pow10r s) = ?a"
    using repr_digits_double [OF a] by blast
  let ?D = "strip_zeros (nat_digits c)" and ?E = "s + int (length (nat_digits c)) - 1"
  obtain z where z: "nat_digits c = ?D @ replicate z (CHR ''0'')" and D: "?D \<noteq> []"
    "\<forall>x \<in> set ?D. is_digit x" and cz: "c = dval ?D * 10 ^ z"
    using strip_zeros_digits [OF c0] by blast
  have tx: "float_repr (Fin q) = (if ?neg then ''-'' else []) @ format_repr ?D ?E"
    using q(3) rd by simp
  obtain m x where p: "parse_float_body ((if ?neg then ''-'' else []) @ format_repr ?D ?E) = Some (dec_float ?neg m x)"
    and mx: "of_nat m * pow10r x = of_nat (dval ?D) * pow10r (?E - int (length ?D) + 1)"
    using format_repr_value [OF D] by blast
  have "length (nat_digits c) = length ?D + z" using z by (metis length_append length_replicate)
  then have "?E - int (length ?D) + 1 = s + int z" by simp
  then have v: "of_nat m * pow10r x = of_nat c * pow10r s"
    using mx cz pow10r_shift [of "dval ?D" z s] by (simp add: add.commute)
  let ?w = "(if ?neg then - 1 else 1) * (of_nat c * pow10r s) :: rat"
  have w: "(if ?neg then -1 else 1) * of_nat m * pow10 x = ?w"
    using v by (simp add: pow10_pow10r mult.assoc)
  have nz: "?w \<noteq> 0" using c0 by simp
  have rnd: "round_double ?w = q"
  proof (cases ?neg)
    case True
    then show ?thesis using cr round_double_uminus [of "of_nat c * pow10r s"] by simp
  next
    case False
    then show ?thesis using cr q(3) by simp
  qed
  have "dec_float ?neg m x = round_fin ?neg ?w" by (simp only: dec_float_def w)
  also have "\<dots> = Fin q" by (rule round_fin_double [OF nz rnd q(2,3)])
  finally have df: "dec_float ?neg m x = Fin q" .
  have st: "py_strip ((if ?neg then ''-'' else []) @ format_repr ?D ?E) = (if ?neg then ''-'' else []) @ format_repr ?D ?E"
    by (rule py_strip_no_space [OF format_repr_no_space [OF D]])
  show ?thesis unfolding tx py_float_def st p df option.case by (rule refl)
qed

lemma py_float_float_repr: "wf_float x \<Longrightarrow> py_float (float_repr x) = Inr x"
proof (cases x)
  case (Fin q)
  assume w: "wf_float x"
  show ?thesis
  proof (cases "q = 0")
    case True
    then show ?thesis using Fin by (simp add: model_eval rat_eval)
  next
    case False
    have "round_double q = q" "\<bar>q\<bar> < ovf_bound" using w Fin by (simp_all add: is_double_def)
    then show ?thesis using Fin float_repr_double [OF _ _ False] by simp
  qed
qed (simp_all add: model_eval rat_eval)

text \<open>
  C14: round trip of \<open>repr\<close> for every float. For every float the model can
  hold (\<open>wf_float\<close>: a finite double, either zero, an infinity or NaN),
  \<open>float(repr(x))\<close> returns \<open>x\<close> itself: the shortest digits \<open>repr\<close> prints
  always exist within 17 significant digits and read back to the same double,
  signs and special values included.
\<close>

theorem float_repr_roundtrip_all:
  assumes "wf_float x"
  shows "py_float (float_repr x) = Inr x"
  using assms by (rule py_float_float_repr)

theorem float_repr_roundtrip_all_witness:
  "wf_float (Fin (3602879701896397 / 36028797018963968)) \<and>
   py_float (float_repr (Fin (3602879701896397 / 36028797018963968))) =
     Inr (Fin (3602879701896397 / 36028797018963968))"
proof -
  have w: "wf_float (Fin (3602879701896397 / 36028797018963968))"
    by (simp add: is_double_def model_eval rat_eval)
  show ?thesis using float_repr_roundtrip_all [OF w] w by simp
qed

end
