(* ===== verification/Spec2Isabelle.thy ===== *)
theory Spec2Isabelle
  imports Tests Number_Text
begin

text \<open>
  \<^bold>\<open>A verified model of the REPL calculator.\<close>

  \<^bold>\<open>The program.\<close> Two modules. src/app/operations/__init__.py defines the
  alias \<open>Number = int | float\<close> and the class \<open>MathOperations\<close> with four static
  methods, \<open>addition\<close>, \<open>subtraction\<close>, \<open>multiplication\<close> (the Python operators
  \<open>+\<close>, \<open>-\<close>, \<open>*\<close>) and \<open>division\<close> (\<open>/\<close>, whose \<open>ZeroDivisionError\<close> is re-raised
  as \<open>ValueError("Division by zero is not allowed.")\<close>).
  src/app/calculator/__init__.py defines \<open>calculator()\<close>: it builds the
  operator table once, prints a banner, and runs \<open>while True\<close>: read a line with
  \<open>input()\<close> and strip it, leave on \<open>exit\<close> in any casing, otherwise split it into
  three fields, convert the operands with \<open>float()\<close>, look the operator up in the
  table, call the method, and print the result or one of three error messages.
  The tests under src/tests/ drive both modules.

  \<^bold>\<open>Theories.\<close>
  \<^item> Prelude: Python's exceptions as values (\<open>py_exc\<close>, the result type
    \<open>py_exc + 'a\<close> with \<open>Inl\<close> the exception, sequencing \<open>py_bind\<close>), the text of a
    \<open>ValueError\<close>, and the rule collections \<open>model_eval\<close> (every definition of
    the model, so that \<open>simp add: model_eval rat_eval\<close> evaluates a concrete
    run) and \<open>rat_eval\<close> (evaluation of rational numerals).
  \<^item> Py_Double: IEEE 754 binary64 rounding of a rational, \<open>round_double\<close>:
    to the nearest \<open>m * 2 ^ e\<close> with \<open>|m| \<le> 2 ^ 53\<close> and \<open>e \<ge> -1074\<close> (subnormals
    included), ties to even, computed from the binary exponent \<open>flog2\<close> (by
    \<open>bitlen\<close> of numerator and denominator) and the quantum of the binade.
    Lemmas: \<open>round_double_correct\<close>, the result is a double and no double is
    closer to the argument (the nearest-value characterisation of IEEE
    rounding); values of that form are fixed points (every integer up to
    \<open>2 ^ 53\<close>, every even one up to \<open>2 ^ 54\<close>), so rounding is idempotent;
    rounding commutes with negation and never gives zero for a nonzero
    integer, and a magnitude of at least \<open>2 ^ 1024\<close> stays there; the error
    of rounding is at most half a quantum, and at most \<open>|q| * 2 ^ -53\<close> (the
    unit roundoff) in the normal range, \<open>round_double_relative_error\<close>; a
    value halfway between two neighbouring doubles goes to the one with the
    even significand, \<open>round_double_ties_even\<close>.
  \<^item> Py_Float: a Python \<open>float\<close> (\<open>pyfloat\<close>): a finite value (a double, as a
    rational), the negative zero, the two infinities and NaN; \<open>fadd\<close>, \<open>fsub\<close>,
    \<open>fmul\<close>, \<open>fdiv\<close> compute the exact result, round it with \<open>round_double\<close>,
    and give IEEE 754 signed zeros, infinities, NaN and overflow to an infinity
    when the rounded magnitude reaches \<open>ovf_bound\<close> (the largest double plus
    half an ulp: no rounded value lies between it and \<open>2 ^ 1024\<close>); \<open>feq\<close> is \<open>==\<close>.
    Lemmas: the well-formedness invariant \<open>wf_float\<close> is kept by every
    operation; the value of a result is the rounded exact value below the
    bound; integer arithmetic up to \<open>2 ^ 53\<close> is exact; commutativity.
  \<^item> Py_Number: \<open>pynum = PInt int | PFloat pyfloat\<close> is \<open>Number\<close>; \<open>py_add\<close>,
    \<open>py_sub\<close>, \<open>py_mul\<close>, \<open>py_truediv\<close> are the operators with CPython's mixed
    arithmetic (an \<open>int\<close> operand converted by \<open>int_to_float\<close>, which raises
    \<open>OverflowError\<close> past the range of a double) and the exceptions of \<open>/\<close>.
  \<^item> Operations: \<open>addition\<close> .. \<open>division\<close>, one definition per method of
    \<open>MathOperations\<close> (lines 17-38), and their claims: refinement of rational
    arithmetic through \<open>num_val\<close>, the complete list of exceptions, the division
    error exactly on a zero divisor, the float result of division, the
    \<open>OverflowError\<close> of every method on an \<open>int\<close> of magnitude at least
    \<open>2 ^ 1024\<close> paired with a \<open>float\<close>, the NaN results exactly on IEEE's invalid
    operations, and commutativity of \<open>addition\<close> and \<open>multiplication\<close>
    (exceptions included). The lemma \<open>operations_bounded\<close> records that every
    returned number satisfies \<open>wf_num\<close> (the float invariant of Py_Float). The refinement claim states that each method returns the
    double nearest to the exact rational result of its (double) operands.
  \<^item> Py_Str: \<open>str.strip\<close>, \<open>str.split\<close> (a \<open>function\<close> terminating on the length
    of its argument), \<open>str.lower\<close> and \<open>float(str)\<close> (the grammar of Python's
    float literals, with \<open>inf\<close>, \<open>nan\<close> and underscores), over Latin-1 characters;
    the round trip of \<open>split()\<close> with fields joined by single spaces (\<open>unwords\<close>).
  \<^item> Py_Repr: \<open>str\<close> of an \<open>int\<close> and \<open>repr\<close> of a \<open>float\<close>, as used by the
    f-string of line 64: the shortest decimal of at most 17 significant digits
    that rounds back to the same double (\<open>repr_shortest\<close> tries 1 to 17 digits,
    \<open>repr_candidate\<close> the two neighbours of each length, the nearer on a tie),
    in fixed or exponent notation; an integral value up to \<open>2 ^ 53\<close> prints as
    its digits and \<open>.0\<close>; every candidate the search returns rounds back to
    the double, and at 17 digits the nearer neighbour always does.
  \<^item> Number_Text: the digits \<open>str\<close>/\<open>repr\<close> print are read back by \<open>float()\<close>:
    the round trip \<open>float(repr(x)) == x\<close> for every float the model holds, and
    for integral floats the text itself (digits and \<open>.0\<close>). With Py_Double's
    neighbourhood lemmas (a rational within half a gap of a double rounds to
    it) it shows that \<open>repr_shortest\<close> always succeeds by 17 digits, so the
    17-digit fallback of \<open>repr_digits_at\<close> is never reached for a double.
  \<^item> Calculator: the loop. \<open>operators\<close> is the table of lines 18-23 (an
    association list); \<open>parse_calc\<close> is lines 40-42; \<open>calc_iteration\<close> is the body
    of one iteration after \<open>input()\<close> returns (the \<open>.strip()\<close> of line 31 and
    lines 34-64), returning the lines printed
    and \<open>Continue\<close>, \<open>Break\<close> or the escaping exception; \<open>session\<close> is the console
    state (unread input lines, written text); \<open>py_input\<close> is \<open>input()\<close> on the
    terminal (writes the prompt, raises \<open>EOFError\<close> at end of input) or on the
    tests' patched console (no prompt, \<open>StopIteration\<close>); \<open>repl_step\<close> is one
    iteration on a session, \<open>repl_loop\<close> the \<open>while True\<close>, \<open>calculator\<close> the
    function (banner, then the loop), and \<open>repl_reach\<close> the loop as an inductive
    step relation from the state after the banner. Lemmas: one iteration never
    lets an exception escape and prints one line; the dispatch refines the
    abstract \<open>expected_line\<close>; the exit test; the closed form of a whole session
    (\<open>calculator_run\<close>); the invariant of the step relation by rule induction;
    and, as lemmas, agreement of the relation with the function and the end of
    every run on the finite input (see Termination).
  \<^item> Tests: the parametrised tables and \<open>assert_numeric_equal\<close> of
    test_operations.py (with Python's \<open>round(x, 1)\<close> and \<open>==\<close>) and the harness
    \<open>run_calculator_with_input\<close> of test_calculator.py; both suites pass, with
    each float literal of a table rounded to its double.
  \<^item> this theory: lines of two integers (printed in fractional form, the
    specification's open question), the sign of a zero product of two integers
    (\<open>-0.0\<close> when an operand is negative), and
    the composition of the loop with the operations, \<open>repr\<close> and \<open>float()\<close>
    (\<open>result_line_reads_back\<close>): the text of every result line is
    \<open>repr\<close> of the double the operator returned, and \<open>float()\<close> of it gives that
    double back.

  \<^bold>\<open>Abstractions.\<close> A double is represented by its exact rational value;
  every arithmetic result, every \<open>float()\<close> conversion and every \<open>int\<close> to
  \<open>float\<close> conversion is rounded by \<open>round_double\<close> (the specification names
  double precision as the reference behaviour), so \<open>0.1 + 0.2\<close> prints
  \<open>0.30000000000000004\<close> as in CPython. \<open>repr\<close> is specified by its result
  (the shortest round-trip string) rather than by David Gay's digit
  generation, which computes the same string. Characters are Latin-1 (code
  points below 256); \<open>isspace\<close> and \<open>lower\<close> are given in full on that range.

  \<^bold>\<open>Termination.\<close> No fuel: \<open>py_split\<close> and \<open>repl_loop\<close> are total functions,
  the loop terminating because each iteration consumes one line of the finite
  input (\<open>measure\<close> on the length of the unread input). That the loop ends on
  every input (\<open>repl_reach_terminates\<close>, \<open>repl_iter_enough_fuel\<close>) is a
  consequence of this model of the input as a finite list and is kept as a
  lemma, not as a property of the code: the code itself stops only on an exit
  line or at the end of the input, which \<open>calculator_run\<close> states.

  \<^bold>\<open>Examples.\<close> Concrete runs evaluated by simplification check the model
  against the specification and the tests rather than state general
  properties: the seven scenario lines of the specification
  (\<open>spec_scenarios_session\<close>), the two pytest suites (Tests), \<open>0.1 + 0.2\<close>
  printing \<open>0.30000000000000004\<close> (\<open>float_sum_rounding\<close>), infinities and NaN
  read by \<open>float()\<close> and printed by \<open>repr\<close> (\<open>special_values_session\<close>), and
  the session that ends by \<open>EOFError\<close> (\<open>calculator_eof\<close>).

  \<^bold>\<open>Not modelled.\<close> Printing to a real terminal and the redirection of
  \<open>sys.stdout\<close> (the model records the written text instead), pytest's
  collection and monkeypatch machinery (modelled by the patched console), and
  characters beyond U+00FF: HOL's \<open>char\<close> is a byte, so the Unicode
  whitespace that \<open>strip\<close> and \<open>split\<close> remove (U+2003 and the like), case
  mappings outside Latin-1 and the non-ASCII decimal digits \<open>float()\<close> accepts
  are outside the model, which is why the string built-ins are only partly
  modelled. Concrete runs with huge decimal exponents (\<open>1e308 * 10\<close>) are
  modelled (\<open>round_fin\<close> overflows to an infinity) but not evaluated as
  scenarios: evaluating \<open>round_double\<close> on a rational of a thousand bits by
  simplification is too slow.
\<close>

section \<open>The specification's scenarios, end to end\<close>

text \<open>
  The seven scenario lines of the specification, typed in one terminal
  session and followed by \<open>EXIT\<close>: after the banner each line is prompted for and
  answered with the specification's output line, and the upper-case \<open>EXIT\<close>
  ends the session normally with the exit notice.
\<close>

theorem spec_scenarios_session:
  "calculator Terminal
     [''3 + 3'', ''5 - 3'', ''4 * 3'', ''30 / 10'', ''8 % 2'', ''five + one'', ''3 / 0'', ''EXIT''] =
   (Exited,
    [''Welcome to the REPL calculator! Type 'exit' to quit\<newline>'',
     ''Please enter a calculation: '', ''Result: 6.0\<newline>'',
     ''Please enter a calculation: '', ''Result: 2.0\<newline>'',
     ''Please enter a calculation: '', ''Result: 12.0\<newline>'',
     ''Please enter a calculation: '', ''Result: 3.0\<newline>'',
     ''Please enter a calculation: '', ''Invalid operator. Please use one of these: +, -, *, or /\<newline>'',
     ''Please enter a calculation: '',
     ''Invalid input. Format: <number> <operator> <number>. Include spaces between each component.\<newline>'',
     ''Please enter a calculation: '', ''Division by zero is not allowed.\<newline>'',
     ''Please enter a calculation: '', ''Exiting the calculator...\<newline>''])"
proof -
  have "is_exit (py_strip ''EXIT'')" by (simp add: is_exit_casings py_strip_def py_isspace_def)
  then show ?thesis
    by (simp add: calculator_def repl_loop_stdin py_print_def prompt_writes_def iteration_writes_def
        calc_iteration_exit scenario_iterations scenario_not_exit banner_msg_def prompt_msg_def
        exit_msg_def)
qed

section \<open>Integer operands\<close>

text \<open>
  A line of two integers and one of \<open>+ - *\<close> separated by single spaces splits
  into exactly those three fields, and the operator table gives the exact
  integral result (both operands converted to \<open>float\<close>).
\<close>

lemma int_line_split:
  assumes op: "op \<in> {''+'', ''-'', ''*''}"
  shows "py_split (py_strip (int_str x @ '' '' @ op @ '' '' @ int_str y)) = [int_str x, op, int_str y]"
proof -
  let ?l = "int_str x @ '' '' @ op @ '' '' @ int_str y"
  obtain c cs where c: "int_str x = c # cs" using int_str_Cons by blast
  obtain d ds where d: "int_str y = d # ds" using int_str_Cons by blast
  have "hd ?l \<in> set (int_str x)" using c by simp
  moreover have "last ?l \<in> set (int_str y)" using d by simp
  ultimately have "py_strip ?l = ?l" using c int_str_no_space [of x] int_str_no_space [of y]
    by (intro py_strip_ends) auto
  moreover have "?l = unwords [int_str x, op, int_str y]" using op by auto
  moreover have "py_split (unwords [int_str x, op, int_str y]) = [int_str x, op, int_str y]"
    using op c d int_str_no_space [of x] int_str_no_space [of y]
    by (intro py_split_join) (auto simp: py_isspace_def)
  ultimately show ?thesis by simp
qed

lemma op_result:
  assumes op: "op \<in> {''+'', ''-'', ''*''}"
    and r: "r = (if op = ''+'' then x + y else if op = ''-'' then x - y else x * y)"
    and nz: "op = ''*'' \<longrightarrow> r \<noteq> 0" and rr: "\<bar>r\<bar> \<le> 2 ^ 53"
  shows "(case map_of operators op of None \<Rightarrow> Inl OverflowError
          | Some f \<Rightarrow> f (PFloat (Fin (of_int x))) (PFloat (Fin (of_int y)))) = Inr (PFloat (Fin (of_int r)))"
  using op
proof (elim insertE emptyE)
  assume "op = ''+''" with r rr show ?thesis by (simp add: map_of_operators addition_def fadd_int)
next
  assume "op = ''-''" with r rr show ?thesis by (simp add: map_of_operators subtraction_def fsub_int)
next
  assume "op = ''*''" with r rr nz show ?thesis
    by (simp add: map_of_operators multiplication_def fmul_int)
qed

text \<open>
  C12: integer operands print in fractional form (the specification's open
  question). For two integers of magnitude at most \<open>2 ^ 53\<close> (each is then a
  double), written as \<open>str\<close> writes them and joined by \<open>+\<close>, \<open>-\<close> or \<open>*\<close>
  between single spaces, the line printed is \<open>Result: \<close> followed by the digits
  of the exact integral result and \<open>.0\<close>, whenever that result is at most
  \<open>2 ^ 53\<close> in magnitude (so no rounding occurs) and, for \<open>*\<close>, not zero.
\<close>

theorem integer_line_result:
  assumes x: "\<bar>x\<bar> \<le> 2 ^ 53" and y: "\<bar>y\<bar> \<le> 2 ^ 53" and op: "op \<in> {''+'', ''-'', ''*''}"
    and r: "r = (if op = ''+'' then x + y else if op = ''-'' then x - y else x * y)"
    and nz: "op = ''*'' \<longrightarrow> r \<noteq> 0" and rb: "\<bar>r\<bar> \<le> 2 ^ 53"
  shows "calc_iteration (int_str x @ '' '' @ op @ '' '' @ int_str y) =
           ([''Result: '' @ int_str r @ ''.0''], Inr Continue)"
proof -
  let ?l = "int_str x @ '' '' @ op @ '' '' @ int_str y"
  have s: "py_split (py_strip ?l) = [int_str x, op, int_str y]" using op by (rule int_line_split)
  have p: "parse_calc (py_strip ?l) = Inr (Fin (of_int x), op, Fin (of_int y))"
    using s py_float_int_str [OF x]
      py_float_int_str [OF y]
    by (simp add: parse_calc_3)
  have ne: "\<not> is_exit (py_strip ?l)" using s by (rule three_fields_not_exit)
  obtain f where f: "map_of operators op = Some f" using op by (auto simp: map_of_operators)
  have "f (PFloat (Fin (of_int x))) (PFloat (Fin (of_int y))) = Inr (PFloat (Fin (of_int r)))"
    using op_result [OF op r nz rb] f by simp
  then have "calc_iteration ?l = ([''Result: '' @ float_repr (Fin (of_int r))], Inr Continue)"
    using ne p f by (simp add: calc_iteration_def)
  then show ?thesis using float_repr_of_int [OF rb] by simp
qed

theorem integer_line_result_witness:
  "calc_iteration ''-4 * 3'' = ([''Result: -12.0''], Inr Continue)"
proof -
  have "calc_iteration (int_str (-4) @ '' '' @ ''*'' @ '' '' @ int_str 3) =
      ([''Result: '' @ int_str (-12) @ ''.0''], Inr Continue)"
    by (rule integer_line_result) simp_all
  then show ?thesis by (simp add: model_eval)
qed

text \<open>
  C21: the sign of a zero product, for every line of two integers. When the
  product of two integers of magnitude at most \<open>2 ^ 53\<close> is zero, the line
  \<open>x * y\<close> prints \<open>Result: -0.0\<close> if an operand is negative and
  \<open>Result: 0.0\<close> otherwise: IEEE multiplication gives the zero the sign of the
  product of the signs, and \<open>repr\<close> prints that sign.
\<close>

theorem zero_product_sign:
  assumes x: "\<bar>x\<bar> \<le> 2 ^ 53" and y: "\<bar>y\<bar> \<le> 2 ^ 53" and z: "x * y = 0"
  shows "calc_iteration (int_str x @ '' '' @ ''*'' @ '' '' @ int_str y) =
           ([if x < 0 \<or> y < 0 then ''Result: -0.0'' else ''Result: 0.0''], Inr Continue)"
proof -
  let ?l = "int_str x @ '' '' @ ''*'' @ '' '' @ int_str y"
  have s: "py_split (py_strip ?l) = [int_str x, ''*'', int_str y]" by (rule int_line_split) simp
  have p: "parse_calc (py_strip ?l) = Inr (Fin (of_int x), ''*'', Fin (of_int y))"
    using s py_float_int_str [OF x] py_float_int_str [OF y] by (simp add: parse_calc_3)
  have ne: "\<not> is_exit (py_strip ?l)" using s by (rule three_fields_not_exit)
  have sg: "((x < 0) \<noteq> (y < 0)) = (x < 0 \<or> y < 0)" using z by auto
  have "multiplication (PFloat (Fin (of_int x))) (PFloat (Fin (of_int y))) =
      Inr (PFloat (mk_zero (x < 0 \<or> y < 0)))"
    using z sg by (simp add: multiplication_def fmul_def round_fin_def)
  then have "calc_iteration ?l = ([''Result: '' @ float_repr (mk_zero (x < 0 \<or> y < 0))], Inr Continue)"
    using ne p by (simp add: calc_iteration_def map_of_operators)
  moreover have "float_repr NegZero = ''-0.0''" "float_repr (Fin 0) = ''0.0''"
    by (simp_all add: model_eval rat_eval)
  ultimately show ?thesis by (simp add: mk_zero_def)
qed

theorem zero_product_sign_witness:
  "calc_iteration ''0 * -3'' = ([''Result: -0.0''], Inr Continue)"
proof -
  have "calc_iteration (int_str 0 @ '' '' @ ''*'' @ '' '' @ int_str (-3)) =
      ([if (0::int) < 0 \<or> (-3::int) < 0 then ''Result: -0.0'' else ''Result: 0.0''], Inr Continue)"
    by (rule zero_product_sign) simp_all
  then show ?thesis by (simp add: model_eval)
qed


section \<open>Rounding in a session\<close>

text \<open>
  Double precision, end to end. The line \<open>0.1 + 0.2\<close> prints
  \<open>Result: 0.30000000000000004\<close>: \<open>float()\<close> rounds each operand to its
  nearest double, the sum of those doubles is rounded again, and \<open>repr\<close>
  needs 17 significant digits to name the result, since no shorter decimal
  rounds back to it.
\<close>

theorem float_sum_rounding:
  "calc_iteration ''0.1 + 0.2'' = ([''Result: 0.30000000000000004''], Inr Continue)"
  by (simp add: model_eval rat_eval)


text \<open>
  IEEE special values, end to end. \<open>float()\<close> reads \<open>inf\<close> and
  \<open>Infinity\<close> in any case; \<open>inf - inf\<close> and \<open>-inf * 0\<close> print \<open>nan\<close> (the
  invalid operations of IEEE 754 return NaN, no exception is raised), and
  \<open>1 / -Infinity\<close> prints the negative zero \<open>-0.0\<close>: a non-zero divisor is
  not caught by the division check even when the quotient is zero.
\<close>

theorem special_values_session:
  "calc_iteration ''inf - inf'' = ([''Result: nan''], Inr Continue) \<and>
   calc_iteration ''-inf * 0'' = ([''Result: nan''], Inr Continue) \<and>
   calc_iteration ''1 / -Infinity'' = ([''Result: -0.0''], Inr Continue)"
proof (intro conjI)
  show "calc_iteration ''inf - inf'' = ([''Result: nan''], Inr Continue)"
    by (simp add: model_eval rat_eval char_of_eq_iff)
  show "calc_iteration ''-inf * 0'' = ([''Result: nan''], Inr Continue)"
    by (simp add: model_eval rat_eval char_of_eq_iff)
  show "calc_iteration ''1 / -Infinity'' = ([''Result: -0.0''], Inr Continue)"
    by (simp add: model_eval rat_eval char_of_eq_iff)
qed

section \<open>What a result line means\<close>

text \<open>
  C15: composition of the loop with the operations, \<open>repr\<close> and \<open>float()\<close>.
  Whenever one iteration prints a line \<open>Result: t\<close>, the line was parsed into
  two floats and an operator of the table, the operator returned a float
  \<open>z\<close> that is a double (or a signed zero, an infinity or NaN), \<open>t\<close> is
  \<open>repr(z)\<close>, and \<open>float(t)\<close> gives \<open>z\<close> back: the printed text names the
  computed result exactly.
\<close>

theorem result_line_reads_back:
  assumes "calc_iteration l = ([''Result: '' @ t], c)"
  shows "\<exists>x op y f z. parse_calc (py_strip l) = Inr (x, op, y) \<and> map_of operators op = Some f \<and>
    f (PFloat x) (PFloat y) = Inr (PFloat z) \<and> wf_float z \<and> t = float_repr z \<and>
    py_float t = Inr z"
proof -
  obtain x op y f r where p: "parse_calc (py_strip l) = Inr (x, op, y)"
    and f: "map_of operators op = Some f" and r: "f (PFloat x) (PFloat y) = Inr r"
    and t: "t = py_str r"
    using result_line_cases [OF assms] by blast
  obtain z where z: "r = PFloat z" "wf_float z" using operators_floats_Inr [OF f r] by blast
  have "py_float t = Inr z" using t z py_float_float_repr [OF z(2)] by simp
  with p f r z t show ?thesis by auto
qed

theorem result_line_reads_back_witness:
  "calc_iteration ''6 / 4'' = ([''Result: 1.5''], Inr Continue) \<and>
   (\<exists>z. py_float ''1.5'' = Inr z \<and> wf_float z \<and> float_repr z = ''1.5'')"
proof -
  have c: "calc_iteration ''6 / 4'' = ([''Result: '' @ ''1.5''], Inr Continue)"
    by (simp add: model_eval rat_eval)
  have "\<exists>z. py_float ''1.5'' = Inr z \<and> wf_float z \<and> ''1.5'' = float_repr z"
    using result_line_reads_back [OF c] by blast
  with c show ?thesis by auto
qed

end
